theory Spec2Isabelle
  imports Main "HOL-Library.Monad_Syntax"
begin

section \<open>Source positions and diagnostics\<close>

text \<open>
  The language-server types \<open>Position\<close> and \<open>Range\<close>: a position is a line and a character,
  a range is a pair of positions. Every object of the symbol graph is identified by an
  address (its reference in the JavaScript heap).
\<close>

type_synonym addr = nat

record Position =
  line :: nat
  character :: nat

record Range =
  rstart :: Position
  rend :: Position

text \<open>
  The messages the diagnostics pass (\<open>DocumentAnalyzer\<close>) adds to its collection. Each
  constructor stands for one message text of the source; all of them have severity Error.
  \<^item> \<open>TYPE_0_NOT_FOUND\<close>: the entry of that name in diagnosticMessages.json, with its argument;
  \<^item> \<open>BadArraySize\<close>: "Bad array size, try refer to a type that can be evaulated to an integer!";
  \<^item> \<open>IllegalArraySize\<close>: "Illegal array size, must be between 2-2048";
  \<^item> \<open>IllegalArrayType t\<close>: "Illegal array type 't'";
  \<^item> \<open>ParamMustBeOptional p\<close>: "Parameter 'p' must be marked 'optional' after an optional parameter.";
  \<^item> \<open>OperatorMustBeFinal\<close>: "Operator must be declared as 'final'.";
  \<^item> \<open>OperatorNeedsTwoParams\<close>: "An operator is required to have a total of 2 parameters.";
  \<^item> \<open>OperatorNeedsPrecedence\<close>: "Operator must have a precedence.";
  \<^item> \<open>OperatorPrecedenceRange\<close>: "Operator precedence must be between 0-255."
\<close>

datatype message =
    TYPE_0_NOT_FOUND string
  | BadArraySize
  | IllegalArraySize
  | IllegalArrayType string
  | ParamMustBeOptional string
  | OperatorMustBeFinal
  | OperatorNeedsTwoParams
  | OperatorNeedsPrecedence
  | OperatorPrecedenceRange

record diagnostic =
  drange :: Range
  dmessage :: message

section \<open>The diagnostics pass: DocumentAnalyzer\<close>

text \<open>
  The analyzer's own state: the stack of enclosing structural symbols, the innermost one,
  and the diagnostic collection it adds to.
\<close>

record DocumentAnalyzer =
  scopes :: "addr list"
  innermost :: "addr option"
  diagnostics :: "diagnostic list"

definition push :: "addr option \<Rightarrow> DocumentAnalyzer \<Rightarrow> DocumentAnalyzer" where
  "push ctx a =
     a\<lparr>innermost := ctx,
       scopes := (case ctx of None \<Rightarrow> scopes a | Some c \<Rightarrow> scopes a @ [c])\<rparr>"

definition pop :: "DocumentAnalyzer \<Rightarrow> DocumentAnalyzer" where
  "pop a =
     (let s = butlast (scopes a)
      in a\<lparr>scopes := s, innermost := (if s = [] then None else Some (last s))\<rparr>)"

definition add :: "diagnostic \<Rightarrow> DocumentAnalyzer \<Rightarrow> DocumentAnalyzer" where
  "add d a = a\<lparr>diagnostics := diagnostics a @ [d]\<rparr>"

subsection \<open>visitMethod\<close>

text \<open>
  A parameter as \<open>visitMethod\<close> reads it: its identifier (name and range) and the result of
  \<open>isOptional()\<close>.
\<close>

record UCParamSymbol =
  param_name :: string
  param_range :: Range
  isOptional :: bool

text \<open>
  \<open>getKind()\<close> of a method symbol is compared with \<open>SymbolKind.Operator\<close>; the other kinds
  of the language-server enumeration that a method can have are kept apart from it.
\<close>

datatype SymbolKind = Function | Event | Operator

text \<open>
  A method symbol as \<open>visitMethod\<close> reads and writes it. \<open>getKind\<close>, \<open>isFinal\<close> and
  \<open>instanceofBinaryOperator\<close> are the results of \<open>symbol.getKind()\<close>, \<open>symbol.isFinal()\<close> and
  \<open>symbol instanceof UCBinaryOperatorSymbol\<close>, whose classes are declared outside the
  analyzer. \<open>params\<close> and \<open>precedence\<close> are optional fields (\<open>None\<close> is \<open>undefined\<close>);
  \<open>requiredParamsCount\<close> is the one field the pass writes.
\<close>

record UCMethodSymbol =
  method_addr :: addr
  method_name :: string
  method_range :: Range
  getKind :: SymbolKind
  isFinal :: bool
  instanceofBinaryOperator :: bool
  params :: "UCParamSymbol list option"
  precedence :: "int option"
  requiredParamsCount :: "nat option"

definition mustBeOptional :: "UCParamSymbol \<Rightarrow> diagnostic" where
  "mustBeOptional p = \<lparr>drange = param_range p, dmessage = ParamMustBeOptional (param_name p)\<rparr>"

text \<open>
  The inner loop \<open>for (let i = requiredParamsCount + 1; i < length; ++i)\<close>, over the
  parameters after the first optional one: an optional parameter is skipped
  (\<open>continue\<close>), any other one gets a diagnostic.
\<close>

fun trailingParams :: "UCParamSymbol list \<Rightarrow> diagnostic list" where
  "trailingParams [] = []"
| "trailingParams (p # ps) =
     (if isOptional p then trailingParams ps else mustBeOptional p # trailingParams ps)"

text \<open>
  The outer loop \<open>for (var requiredParamsCount = 0; requiredParamsCount < length;
  ++requiredParamsCount)\<close>: the counter and the parameters from it on. At the first optional
  parameter the inner loop runs and the outer loop is left (\<open>break\<close>). The result is the
  final value of the counter and the diagnostics added.
\<close>

fun paramsLoop :: "nat \<Rightarrow> UCParamSymbol list \<Rightarrow> nat \<times> diagnostic list" where
  "paramsLoop n [] = (n, [])"
| "paramsLoop n (p # ps) =
     (if isOptional p then (n, trailingParams ps) else paramsLoop (Suc n) ps)"

text \<open>
  JavaScript's \<open>!x\<close> on a value of type \<open>number | undefined\<close>: true when \<open>x\<close> is
  \<open>undefined\<close> and when it is the number 0.
\<close>

definition falsy :: "int option \<Rightarrow> bool" where
  "falsy x = (case x of None \<Rightarrow> True | Some n \<Rightarrow> n = 0)"

text \<open>The diagnostics of the \<open>SymbolKind.Operator\<close> branch, in the order of the source.\<close>

definition operatorChecks :: "UCMethodSymbol \<Rightarrow> diagnostic list" where
  "operatorChecks m =
     (if getKind m = Operator then
        (if \<not> isFinal m
         then [\<lparr>drange = method_range m, dmessage = OperatorMustBeFinal\<rparr>] else [])
        @ (if instanceofBinaryOperator m then
             (if (case params m of None \<Rightarrow> True | Some ps \<Rightarrow> length ps \<noteq> 2)
              then [\<lparr>drange = method_range m, dmessage = OperatorNeedsTwoParams\<rparr>] else [])
             @ (if falsy (precedence m)
                then [\<lparr>drange = method_range m, dmessage = OperatorNeedsPrecedence\<rparr>]
                else (case precedence m of
                        None \<Rightarrow> []
                      | Some pr \<Rightarrow>
                          if pr < 0 \<or> pr > 255
                          then [\<lparr>drange = method_range m, dmessage = OperatorPrecedenceRange\<rparr>]
                          else []))
           else [])
      else [])"

text \<open>
  \<open>visitMethod\<close>. \<open>superVisit\<close> is \<open>super.visitMethod(symbol)\<close>, the default walk over the
  method's children, which is not part of the analyzer's file; it runs between \<open>push\<close> and
  the checks. The result is the symbol (with \<open>requiredParamsCount\<close> written when the method
  has a parameter list) and the analyzer.
\<close>

definition visitMethod ::
  "(DocumentAnalyzer \<Rightarrow> DocumentAnalyzer) \<Rightarrow> UCMethodSymbol \<Rightarrow> DocumentAnalyzer
     \<Rightarrow> UCMethodSymbol \<times> DocumentAnalyzer" where
  "visitMethod superVisit symbol a =
     (let a1 = superVisit (push (Some (method_addr symbol)) a);
          (symbol', ds) =
            (case params symbol of
               None \<Rightarrow> (symbol, [])
             | Some ps \<Rightarrow>
                 (let (n, ds) = paramsLoop 0 ps
                  in (symbol\<lparr>requiredParamsCount := Some n\<rparr>, ds)));
          a2 = a1\<lparr>diagnostics := diagnostics a1 @ ds @ operatorChecks symbol'\<rparr>
      in (symbol', pop a2))"

subsection \<open>visitProperty and visitObjectType\<close>

text \<open>
  The configuration the pass reads. \<open>PredefinedBool\<close> and \<open>NativeArray\<close> are the two
  predefined symbol objects the pass compares a resolved type with; they are two distinct
  objects, created once, and stand at two fixed addresses here (apart from the addresses
  that the examples below use for declared symbols).
\<close>

record config =
  checkTypes :: bool

definition PredefinedBool :: addr where
  "PredefinedBool = 100"

definition NativeArray :: addr where
  "NativeArray = 101"

text \<open>
  A type reference: its identifier, its display text (\<open>getTypeText()\<close>) and the symbol it
  was resolved to by the index pass (\<open>getReference()\<close>; \<open>None\<close> is \<open>undefined\<close>).
\<close>

record UCTypeSymbol =
  type_name :: string
  type_range :: Range
  getTypeText :: string
  getReference :: "addr option"

text \<open>
  A property as \<open>visitProperty\<close> reads it: \<open>isFixedArray\<close> and \<open>getArrayDimSize\<close> are
  the results of the methods of these names (\<open>getArrayDimSize()\<close> returns a number or
  \<open>undefined\<close>), \<open>arrayDimRange\<close> and \<open>prop_type\<close> are optional fields.
\<close>

record UCPropertySymbol =
  prop_name :: string
  prop_range :: Range
  isFixedArray :: bool
  arrayDimRange :: "Range option"
  getArrayDimSize :: "int option"
  prop_type :: "UCTypeSymbol option"

text \<open>The size checks of a fixed array, reported at the range of the dimension.\<close>

definition arraySizeChecks :: "Range \<Rightarrow> int option \<Rightarrow> diagnostic list" where
  "arraySizeChecks r arraySize =
     (if falsy arraySize then [\<lparr>drange = r, dmessage = BadArraySize\<rparr>]
      else (case arraySize of
              None \<Rightarrow> []
            | Some n \<Rightarrow>
                if n > 2048 \<or> n \<le> 1 then [\<lparr>drange = r, dmessage = IllegalArraySize\<rparr>]
                else []))"

text \<open>The check of the element type of a fixed array.\<close>

definition arrayTypeChecks :: "config \<Rightarrow> UCTypeSymbol option \<Rightarrow> diagnostic list" where
  "arrayTypeChecks cfg ty =
     (case ty of
        None \<Rightarrow> []
      | Some t \<Rightarrow>
          if checkTypes cfg
             \<and> (getReference t = Some PredefinedBool \<or> getReference t = Some NativeArray)
          then [\<lparr>drange = type_range t, dmessage = IllegalArrayType (getTypeText t)\<rparr>]
          else [])"

text \<open>
  \<open>visitProperty\<close>; \<open>superVisit\<close> is \<open>super.visitProperty(symbol)\<close>, the default walk.
\<close>

definition visitProperty ::
  "config \<Rightarrow> (DocumentAnalyzer \<Rightarrow> DocumentAnalyzer) \<Rightarrow> UCPropertySymbol
     \<Rightarrow> DocumentAnalyzer \<Rightarrow> DocumentAnalyzer" where
  "visitProperty cfg superVisit symbol a =
     (let a1 = superVisit a
      in case (isFixedArray symbol, arrayDimRange symbol) of
           (True, Some r) \<Rightarrow>
             a1\<lparr>diagnostics := diagnostics a1
                  @ arraySizeChecks r (getArrayDimSize symbol)
                  @ arrayTypeChecks cfg (prop_type symbol)\<rparr>
         | _ \<Rightarrow> a1)"

text \<open>
  \<open>visitObjectType\<close>: a type reference that the index pass left unresolved is reported,
  when the configuration asks for type checks.
\<close>

definition visitObjectType ::
  "config \<Rightarrow> (DocumentAnalyzer \<Rightarrow> DocumentAnalyzer) \<Rightarrow> UCTypeSymbol
     \<Rightarrow> DocumentAnalyzer \<Rightarrow> DocumentAnalyzer" where
  "visitObjectType cfg superVisit symbol a =
     (let a1 = superVisit a
      in if checkTypes cfg \<and> getReference symbol = None
         then add \<lparr>drange = type_range symbol, dmessage = TYPE_0_NOT_FOUND (type_name symbol)\<rparr> a1
         else a1)"

section \<open>The symbol graph\<close>

subsection \<open>Names and symbols\<close>

text \<open>
  \<open>String.prototype.toLowerCase\<close>, on the ASCII letters that identifiers of the language
  are made of: a character from \<open>A\<close> (65) to \<open>Z\<close> (90) becomes the character 32 above
  it, which is the same character with the bit of value 32 set.
\<close>

fun toLowerCase_char :: "char \<Rightarrow> char" where
  "toLowerCase_char (Char b0 b1 b2 b3 b4 b5 b6 b7) =
     (if 65 \<le> (of_char (Char b0 b1 b2 b3 b4 b5 b6 b7) :: nat)
         \<and> (of_char (Char b0 b1 b2 b3 b4 b5 b6 b7) :: nat) \<le> 90
      then Char b0 b1 b2 b3 b4 True b6 b7
      else Char b0 b1 b2 b3 b4 b5 b6 b7)"

definition toLowerCase :: "string \<Rightarrow> string" where
  "toLowerCase s = map toLowerCase_char s"

record Identifier =
  id_name :: string
  id_range :: Range

text \<open>
  The classes of the symbol hierarchy that the code tells apart with \<open>instanceof\<close>.
  \<open>OtherStructSymbol\<close> stands for the remaining subclasses of \<open>UCStructSymbol\<close>
  (replication and default-value blocks), \<open>FieldSymbol\<close> for the subclasses of
  \<open>UCFieldSymbol\<close> that are no structs (properties, constants, enum members), and
  \<open>Package\<close> for a package, which is a symbol but no field.
\<close>

datatype SymbolClass =
    Package
  | ClassSymbol
  | ScriptStructSymbol
  | EnumSymbol
  | StateSymbol
  | MethodSymbol
  | OtherStructSymbol
  | FieldSymbol

fun instanceofStruct :: "SymbolClass \<Rightarrow> bool" where
  "instanceofStruct Package = False"
| "instanceofStruct FieldSymbol = False"
| "instanceofStruct _ = True"

text \<open>
  A symbol object. Optional fields of the source are options (\<open>None\<close> is \<open>undefined\<close>).
  The intrusive list \<open>children\<close>/\<open>next\<close> of a struct is the list of its cells from the head
  on: the head is \<open>this.children\<close>, each following element is the \<open>next\<close> of the one
  before. \<open>types\<close> is a JavaScript \<open>Map\<close>, which iterates in insertion order: an
  association list in that order. \<open>declRange\<close> is the range given to the constructor
  (\<open>getRange()\<close>; the range of the identifier when none is given), \<open>document\<close> is the
  owning document of a document class symbol (by its path), \<open>enum_value\<close> the \<open>value\<close> of
  an enum member.
\<close>

record UCSymbol =
  ident :: Identifier
  declRange :: Range
  instanceOf :: SymbolClass
  outer :: "addr option"
  super :: "addr option"
  children :: "addr list"
  types :: "(string \<times> addr) list option"
  extendsType :: "UCTypeSymbol option"
  withinType :: "UCTypeSymbol option"
  dependsOnTypes :: "UCTypeSymbol list option"
  implementsTypes :: "UCTypeSymbol list option"
  scriptBlock :: "addr option"
  document :: "string option"
  enum_value :: "nat option"

type_synonym heap = "addr \<Rightarrow> UCSymbol"

definition getName :: "UCSymbol \<Rightarrow> string" where
  "getName s = id_name (ident s)"

subsection \<open>UCStructSymbol: addSymbol, findSymbol, findSuperSymbol\<close>

text \<open>\<open>Map.prototype.set\<close>: an existing key keeps its place, a new key goes last.\<close>

fun map_set :: "string \<Rightarrow> addr \<Rightarrow> (string \<times> addr) list \<Rightarrow> (string \<times> addr) list" where
  "map_set k v [] = [(k, v)]"
| "map_set k v ((k', v') # m) = (if k' = k then (k, v) # m else (k', v') # map_set k v m)"

text \<open>
  \<open>addSymbol\<close>: the symbol becomes the head of the children of \<open>this\<close>, and a struct or
  an enum is entered into \<open>types\<close> under its lower-case name. (\<open>containingStruct\<close>, which
  is written with the same value as \<open>outer\<close> and read nowhere, is left out.) The list
  is the chain of the \<open>next\<close> pointers as long as the symbol added is not in the list
  already, as with the tree builder, which adds each symbol it creates once: a symbol
  added a second time would close the chain of the code into a cycle.
\<close>

definition addSymbol :: "addr \<Rightarrow> addr \<Rightarrow> heap \<Rightarrow> heap" where
  "addSymbol this symbol h =
     (let h1 = h(symbol := (h symbol)\<lparr>outer := Some this\<rparr>);
          h2 = h1(this := (h1 this)\<lparr>children := symbol # children (h1 this)\<rparr>)
      in if instanceOf (h2 symbol) = ScriptStructSymbol \<or> instanceOf (h2 symbol) = EnumSymbol
         then h2(this := (h2 this)
                \<lparr>types := Some (map_set (toLowerCase (getName (h2 symbol))) symbol
                                 (case types (h2 this) of None \<Rightarrow> [] | Some m \<Rightarrow> m))\<rparr>)
         else h2)"

text \<open>
  The searches follow pointers of the heap, and nothing in the code bounds them: on a cyclic
  graph they do not return. They take fuel, spent at every call of a method on another
  object; the result \<open>None\<close> says that the fuel ran out, \<open>Some None\<close> that the search
  returned \<open>undefined\<close>, \<open>Some (Some a)\<close> that it returned the symbol at \<open>a\<close>.

  \<open>findSymbol\<close> is the loop over the children: a child of the wanted (lower-case) name is
  returned; an enum child is searched for a member of that name first.
\<close>

fun findSymbol_loop :: "heap \<Rightarrow> nat \<Rightarrow> addr list \<Rightarrow> string \<Rightarrow> addr option option" where
  "findSymbol_loop h n [] i = Some None"
| "findSymbol_loop h n (child # rest) i =
     (if toLowerCase (getName (h child)) = i then Some (Some child)
      else if instanceOf (h child) = EnumSymbol then
        (case n of
           0 \<Rightarrow> None
         | Suc m \<Rightarrow>
             (case findSymbol_loop h m (children (h child)) i of
                None \<Rightarrow> None
              | Some (Some symbol) \<Rightarrow> Some (Some symbol)
              | Some None \<Rightarrow> findSymbol_loop h n rest i))
      else findSymbol_loop h n rest i)"

definition findSymbol :: "heap \<Rightarrow> nat \<Rightarrow> addr \<Rightarrow> string \<Rightarrow> addr option option" where
  "findSymbol h n this i = findSymbol_loop h n (children (h this)) i"

fun findSuperSymbol :: "heap \<Rightarrow> nat \<Rightarrow> addr \<Rightarrow> string \<Rightarrow> addr option option" where
  "findSuperSymbol h 0 this i = None"
| "findSuperSymbol h (Suc n) this i =
     (if i = toLowerCase (getName (h this)) then Some (Some this)
      else
        (case findSymbol h n this i of
           None \<Rightarrow> None
         | Some (Some symbol) \<Rightarrow> Some (Some symbol)
         | Some None \<Rightarrow>
             (case (case super (h this) of
                      Some parent \<Rightarrow>
                        if instanceOf (h this) \<noteq> MethodSymbol then findSuperSymbol h n parent i
                        else Some None
                    | None \<Rightarrow> Some None) of
                None \<Rightarrow> None
              | Some (Some symbol) \<Rightarrow> Some (Some symbol)
              | Some None \<Rightarrow>
                  (case outer (h this) of
                     Some owner \<Rightarrow>
                       if (instanceOf (h this) = MethodSymbol \<or> instanceOf (h this) = StateSymbol)
                          \<and> instanceofStruct (instanceOf (h owner))
                       then findSuperSymbol h n owner i
                       else Some None
                   | None \<Rightarrow> Some None))))"

subsection \<open>The index pass over structs and classes\<close>

text \<open>
  \<open>index\<close> of a struct calls \<open>index\<close> on its type references, on its children and on its
  script block. These callees are other objects with code of their own; the model
  records each call, in the order in which it is made, with the context argument it gets.
  What the index of a type reference does to that reference is the parameter
  \<open>typeIndex\<close>: it takes the reference and the context and returns the reference as it is
  after the call (its \<open>getReference\<close> is the declaration it was resolved to, if any).
\<close>

datatype IndexCall =
    TypeIndex UCTypeSymbol addr
  | SymbolIndex addr addr
  | BlockIndex addr addr

type_synonym typeIndexer = "UCTypeSymbol \<Rightarrow> addr \<Rightarrow> UCTypeSymbol"

definition isTypeChild :: "heap \<Rightarrow> addr \<Rightarrow> bool" where
  "isTypeChild h child =
     (instanceOf (h child) = ScriptStructSymbol \<or> instanceOf (h child) = EnumSymbol)"

text \<open>\<open>UCStructSymbol.index(document, context)\<close>.\<close>

definition UCStructSymbol_index ::
  "typeIndexer \<Rightarrow> addr \<Rightarrow> addr \<Rightarrow> heap \<Rightarrow> heap \<times> IndexCall list" where
  "UCStructSymbol_index typeIndex ctx this h =
     (let (h1, calls1) =
            (case extendsType (h this) of
               None \<Rightarrow> (h, [])
             | Some et \<Rightarrow>
                 (let s1 = (h this)\<lparr>extendsType := Some (typeIndex et ctx)\<rparr>;
                      s2 = (if super s1 = None
                            then s1\<lparr>super := getReference (typeIndex et ctx)\<rparr> else s1)
                  in (h(this := s2), [TypeIndex et ctx])));
          calls2 =
            (if children (h1 this) \<noteq> [] then
               (case types (h1 this) of
                  None \<Rightarrow> []
                | Some m \<Rightarrow> map (\<lambda>t. SymbolIndex t this) (map snd m))
               @ map (\<lambda>child. SymbolIndex child this)
                   (filter (\<lambda>child. \<not> isTypeChild h1 child) (children (h1 this)))
             else []);
          calls3 =
            (case scriptBlock (h1 this) of None \<Rightarrow> [] | Some b \<Rightarrow> [BlockIndex b this])
      in (h1, calls1 @ calls2 @ calls3))"

text \<open>\<open>UCScriptStructSymbol.index\<close> passes the struct itself as the context.\<close>

definition UCScriptStructSymbol_index ::
  "typeIndexer \<Rightarrow> addr \<Rightarrow> heap \<Rightarrow> heap \<times> IndexCall list" where
  "UCScriptStructSymbol_index typeIndex this h = UCStructSymbol_index typeIndex this this h"

text \<open>
  \<open>UCClassSymbol.index(document, context)\<close>: the within clause first, whose reference
  overwrites \<open>super\<close>, then the classes depended on and the interfaces, then the struct.
\<close>

definition UCClassSymbol_index ::
  "typeIndexer \<Rightarrow> addr \<Rightarrow> addr \<Rightarrow> heap \<Rightarrow> heap \<times> IndexCall list" where
  "UCClassSymbol_index typeIndex ctx this h =
     (let (h1, calls1) =
            (case withinType (h this) of
               None \<Rightarrow> (h, [])
             | Some wt \<Rightarrow>
                 (h(this := (h this)\<lparr>withinType := Some (typeIndex wt ctx),
                                      super := getReference (typeIndex wt ctx)\<rparr>),
                  [TypeIndex wt ctx]));
          (h2, calls2) =
            (case dependsOnTypes (h1 this) of
               None \<Rightarrow> (h1, [])
             | Some ts \<Rightarrow>
                 (h1(this := (h1 this)\<lparr>dependsOnTypes := Some (map (\<lambda>t. typeIndex t ctx) ts)\<rparr>),
                  map (\<lambda>t. TypeIndex t ctx) ts));
          (h3, calls3) =
            (case implementsTypes (h2 this) of
               None \<Rightarrow> (h2, [])
             | Some ts \<Rightarrow>
                 (h2(this := (h2 this)\<lparr>implementsTypes := Some (map (\<lambda>t. typeIndex t ctx) ts)\<rparr>),
                  map (\<lambda>t. TypeIndex t ctx) ts));
          (h4, calls4) = UCStructSymbol_index typeIndex ctx this h3
      in (h4, calls1 @ calls2 @ calls3 @ calls4))"

text \<open>The declarations of a struct body, made one after the other with \<open>addSymbol\<close>.\<close>

fun addSymbols :: "addr \<Rightarrow> addr list \<Rightarrow> heap \<Rightarrow> heap" where
  "addSymbols this [] h = h"
| "addSymbols this (symbol # rest) h = addSymbols this rest (addSymbol this symbol h)"

subsection \<open>The index pass, run across documents\<close>

text \<open>
  The functions above take what the index of a type reference returns as a parameter,
  and only record the calls. To follow a call that comes back into a class, the index is
  also run: here the index of a type reference is a callback on the whole state, the heap
  and the calls made so far, which may index other classes before it returns, and which
  gives \<open>None\<close> when it does not return within its fuel. The clauses of
  \<open>UCStructSymbol.index\<close> and of \<open>UCClassSymbol.index\<close> are those of above, one definition
  for each; the calls on the children and on the script block are recorded.
\<close>

type_synonym indexState = "heap \<times> IndexCall list"

type_synonym typeIndexRun = "UCTypeSymbol \<Rightarrow> addr \<Rightarrow> indexState \<Rightarrow> (UCTypeSymbol \<times> indexState) option"

text \<open>A call \<open>t.index(document, context)\<close> on a type reference: it is recorded, and run.\<close>

definition callIndex ::
  "typeIndexRun \<Rightarrow> UCTypeSymbol \<Rightarrow> addr \<Rightarrow> indexState \<Rightarrow> (UCTypeSymbol \<times> indexState) option" where
  "callIndex ti t ctx s = ti t ctx (fst s, snd s @ [TypeIndex t ctx])"

text \<open>The loop \<open>for (let t of ts) t.index(document, context)\<close> over an array of type references.\<close>

fun indexEach ::
  "typeIndexRun \<Rightarrow> addr \<Rightarrow> UCTypeSymbol list \<Rightarrow> indexState
     \<Rightarrow> (UCTypeSymbol list \<times> indexState) option" where
  "indexEach ti ctx [] s = Some ([], s)"
| "indexEach ti ctx (t # ts) s =
     do {
       (t', s1) \<leftarrow> callIndex ti t ctx s;
       (ts', s2) \<leftarrow> indexEach ti ctx ts s1;
       Some (t' # ts', s2)
     }"

text \<open>
  \<open>UCStructSymbol.index(document, context)\<close>: the extends clause is indexed, and the super
  is set from it when no super is set (\<open>indexExtends\<close>); then the calls on the types, on
  the other children and on the script block are made (\<open>memberCalls\<close>).
\<close>

definition indexExtends :: "typeIndexRun \<Rightarrow> addr \<Rightarrow> addr \<Rightarrow> indexState \<Rightarrow> indexState option" where
  "indexExtends ti ctx this s =
     (case extendsType (fst s this) of
        None \<Rightarrow> Some s
      | Some et \<Rightarrow>
          do {
            (et', (h, calls)) \<leftarrow> callIndex ti et ctx s;
            let s1 = (h this)\<lparr>extendsType := Some et'\<rparr>;
            let s2 = (if super s1 = None then s1\<lparr>super := getReference et'\<rparr> else s1);
            Some (h(this := s2), calls)
          })"

definition memberCalls :: "heap \<Rightarrow> addr \<Rightarrow> IndexCall list" where
  "memberCalls h this =
     (if children (h this) \<noteq> [] then
        (case types (h this) of
           None \<Rightarrow> []
         | Some m \<Rightarrow> map (\<lambda>t. SymbolIndex t this) (map snd m))
        @ map (\<lambda>child. SymbolIndex child this)
            (filter (\<lambda>child. \<not> isTypeChild h child) (children (h this)))
      else [])
     @ (case scriptBlock (h this) of None \<Rightarrow> [] | Some b \<Rightarrow> [BlockIndex b this])"

definition UCStructSymbol_index_run ::
  "typeIndexRun \<Rightarrow> addr \<Rightarrow> addr \<Rightarrow> indexState \<Rightarrow> indexState option" where
  "UCStructSymbol_index_run ti ctx this s =
     do {
       (h, calls) \<leftarrow> indexExtends ti ctx this s;
       Some (h, calls @ memberCalls h this)
     }"

text \<open>
  \<open>UCClassSymbol.index(document, context)\<close>: the within clause, whose reference overwrites
  the super (\<open>indexWithin\<close>); the classes depended on (\<open>indexDependsOn\<close>); the interfaces
  (\<open>indexImplements\<close>); then the struct.
\<close>

definition indexWithin :: "typeIndexRun \<Rightarrow> addr \<Rightarrow> addr \<Rightarrow> indexState \<Rightarrow> indexState option" where
  "indexWithin ti ctx this s =
     (case withinType (fst s this) of
        None \<Rightarrow> Some s
      | Some wt \<Rightarrow>
          do {
            (wt', (h, calls)) \<leftarrow> callIndex ti wt ctx s;
            Some (h(this := (h this)\<lparr>withinType := Some wt', super := getReference wt'\<rparr>), calls)
          })"

definition indexDependsOn :: "typeIndexRun \<Rightarrow> addr \<Rightarrow> addr \<Rightarrow> indexState \<Rightarrow> indexState option" where
  "indexDependsOn ti ctx this s =
     (case dependsOnTypes (fst s this) of
        None \<Rightarrow> Some s
      | Some ts \<Rightarrow>
          do {
            (ts', (h, calls)) \<leftarrow> indexEach ti ctx ts s;
            Some (h(this := (h this)\<lparr>dependsOnTypes := Some ts'\<rparr>), calls)
          })"

definition indexImplements :: "typeIndexRun \<Rightarrow> addr \<Rightarrow> addr \<Rightarrow> indexState \<Rightarrow> indexState option" where
  "indexImplements ti ctx this s =
     (case implementsTypes (fst s this) of
        None \<Rightarrow> Some s
      | Some ts \<Rightarrow>
          do {
            (ts', (h, calls)) \<leftarrow> indexEach ti ctx ts s;
            Some (h(this := (h this)\<lparr>implementsTypes := Some ts'\<rparr>), calls)
          })"

definition UCClassSymbol_index_run ::
  "typeIndexRun \<Rightarrow> addr \<Rightarrow> addr \<Rightarrow> indexState \<Rightarrow> indexState option" where
  "UCClassSymbol_index_run ti ctx this s =
     do {
       s1 \<leftarrow> indexWithin ti ctx this s;
       s2 \<leftarrow> indexDependsOn ti ctx this s1;
       s3 \<leftarrow> indexImplements ti ctx this s2;
       UCStructSymbol_index_run ti ctx this s3
     }"

text \<open>
  \<open>UCDocumentClassSymbol.index(document, context)\<close>: nothing is done when the owning
  document is set already; otherwise it is set, and then the class is indexed.
\<close>

definition UCDocumentClassSymbol_index ::
  "typeIndexRun \<Rightarrow> string \<Rightarrow> addr \<Rightarrow> addr \<Rightarrow> indexState \<Rightarrow> indexState option" where
  "UCDocumentClassSymbol_index ti doc ctx this s =
     (if document (fst s this) \<noteq> None then Some s
      else UCClassSymbol_index_run ti ctx this
             ((fst s)(this := (fst s this)\<lparr>document := Some doc\<rparr>), snd s))"

text \<open>
  Modelled from the spec: the index of a reference to the class of a document, which is
  not in the sources. Indexing a document "may trigger resolving and indirectly triggers
  indexing" another document, and re-entrant indexing is "triggered by a dependent class
  resolving a reference back into this one". The documents are a table from the lower-case name of their class to their path and
  their class symbol. The index of a type reference of such a name resolves it to that
  class and calls the \<open>index\<close> of the class, with the document of the class and, as the
  default of the parameter \<open>context\<close> says, with the class itself; the call is recorded. A
  reference of another name stays as it is.
\<close>

type_synonym documents = "(string \<times> string \<times> addr) list"

definition UCTypeSymbol_index ::
  "documents \<Rightarrow> (string \<Rightarrow> addr \<Rightarrow> addr \<Rightarrow> indexState \<Rightarrow> indexState option) \<Rightarrow> typeIndexRun" where
  "UCTypeSymbol_index docs classIndex t ctx s =
     (case map_of docs (toLowerCase (type_name t)) of
        None \<Rightarrow> Some (t, s)
      | Some (path, c) \<Rightarrow>
          do {
            s' \<leftarrow> classIndex path c c (fst s, snd s @ [SymbolIndex c c]);
            Some (t\<lparr>getReference := Some c\<rparr>, s')
          })"

text \<open>
  \<open>UCDocumentClassSymbol.index\<close> with the index of its type references run. Fuel is spent
  at every call of \<open>index\<close> on a document class.
\<close>

primrec indexDocumentClass ::
  "nat \<Rightarrow> documents \<Rightarrow> string \<Rightarrow> addr \<Rightarrow> addr \<Rightarrow> indexState \<Rightarrow> indexState option" where
  "indexDocumentClass 0 = (\<lambda>docs doc ctx this s. None)"
| "indexDocumentClass (Suc n) =
     (\<lambda>docs doc ctx this s.
        UCDocumentClassSymbol_index (UCTypeSymbol_index docs (indexDocumentClass n docs)) doc ctx this s)"

text \<open>
  A type index that only resolves: it returns what the parameter of the recording
  functions gives, and the state as it is.
\<close>

definition pureIndex :: "typeIndexer \<Rightarrow> typeIndexRun" where
  "pureIndex ti t ctx s = Some (ti t ctx, s)"

section \<open>The tree builder: DocumentASTWalker\<close>

text \<open>
  The nodes a document collects (\<open>document.nodes\<close>), of the classes of the diagnostics
  module. A node that is built from a symbol or a reference keeps its identifier, whose
  range is the range of the node. The message of a \<open>SemanticErrorNode\<close> is composed from
  the qualified name of a symbol: \<open>InaccessibleType c\<close> stands for the text "'c' is an
  inaccessible type!" with the qualified name of the symbol at \<open>c\<close>.
\<close>

datatype SemanticError = InaccessibleType addr

datatype DiagnosticNode =
    SyntaxErrorNode Range string
  | SemanticErrorNode Identifier SemanticError
  | UnrecognizedFieldNode Identifier "addr option"

fun node_getRange :: "DiagnosticNode \<Rightarrow> Range" where
  "node_getRange (SyntaxErrorNode r e) = r"
| "node_getRange (SemanticErrorNode i e) = id_range i"
| "node_getRange (UnrecognizedFieldNode i c) = id_range i"

text \<open>
  The state the walker works on: the heap of symbols with the next free address (\<open>new\<close>
  takes it), the walker's stack of scopes (the top is the last element, as in the
  array), and of the document its path, its class slot, its nodes and its symbol table.
  \<open>objectsTable\<close> and \<open>enumMemberTable\<close> record the symbols handed to
  \<open>ObjectsTable.addSymbol\<close> and to \<open>setEnumMember\<close>.
\<close>

record DocumentASTWalker =
  store :: heap
  fresh :: addr
  wscopes :: "addr list"
  document_path :: string
  document_class :: "addr option"
  document_nodes :: "DiagnosticNode list"
  document_symbols :: "addr list"
  objectsTable :: "addr list"
  enumMemberTable :: "addr list"

definition newSymbol ::
  "Identifier \<Rightarrow> Range \<Rightarrow> SymbolClass \<Rightarrow> DocumentASTWalker \<Rightarrow> addr \<times> DocumentASTWalker" where
  "newSymbol i r c w =
     (fresh w,
      w\<lparr>store := (store w)(fresh w :=
            \<lparr>ident = i, declRange = r, instanceOf = c, outer = None, super = None,
             children = [], types = None, extendsType = None, withinType = None,
             dependsOnTypes = None, implementsTypes = None, scriptBlock = None,
             document = None, enum_value = None\<rparr>),
        fresh := Suc (fresh w)\<rparr>)"

definition wpush :: "addr \<Rightarrow> DocumentASTWalker \<Rightarrow> DocumentASTWalker" where
  "wpush newContext w = w\<lparr>wscopes := wscopes w @ [newContext]\<rparr>"

definition wpop :: "DocumentASTWalker \<Rightarrow> DocumentASTWalker" where
  "wpop w = w\<lparr>wscopes := butlast (wscopes w)\<rparr>"

text \<open>
  Modelled from the spec: \<open>addSymbol\<close> of the scope on top of the stack. For a struct it
  is \<open>UCStructSymbol.addSymbol\<close>; the \<open>addSymbol\<close> of a package is not in the sources and
  is taken to do the same, as the spec has it: \<open>declare\<close> "attaches the symbol to the
  top-of-stack scope's children list".
\<close>

definition scope_addSymbol :: "addr \<Rightarrow> addr \<Rightarrow> heap \<Rightarrow> heap" where
  "scope_addSymbol scope symbol h = addSymbol scope symbol h"

text \<open>
  \<open>declare(symbol, ctx)\<close>: \<open>scope().addSymbol(symbol)\<close>. With an empty stack \<open>scope()\<close> is
  \<open>undefined\<close> and the call throws a TypeError: the result \<open>None\<close>. The comment tokens
  that \<open>declare\<close> attaches as \<open>description\<close> are left out.
\<close>

definition declareSymbol :: "addr \<Rightarrow> DocumentASTWalker \<Rightarrow> DocumentASTWalker option" where
  "declareSymbol symbol w =
     (if wscopes w = [] then None
      else Some (w\<lparr>store := scope_addSymbol (last (wscopes w)) symbol (store w)\<rparr>))"


subsection \<open>visitClassDecl\<close>






subsection \<open>visitEnumDecl\<close>

record EnumDeclContext =
  enum_id :: Identifier
  enum_range :: Range
  enumMember :: "Identifier list"

text \<open>The name of the member that the compiler generates, \<open>NAME_ENUMCOUNT\<close>.\<close>

definition NAME_ENUMCOUNT :: string where
  "NAME_ENUMCOUNT = ''EnumCount''"

definition visitEnumMember ::
  "Identifier \<Rightarrow> DocumentASTWalker \<Rightarrow> (addr \<times> DocumentASTWalker) option" where
  "visitEnumMember i w =
     (let (symbol, w1) = newSymbol i (id_range i) FieldSymbol w
      in case declareSymbol symbol w1 of
           None \<Rightarrow> None
         | Some w2 \<Rightarrow> Some (symbol, w2\<lparr>enumMemberTable := enumMemberTable w2 @ [symbol]\<rparr>))"

text \<open>
  The loop over the member nodes: each member is visited, then its \<open>outer\<close> and its
  \<open>value\<close> are written, and the counter goes up. The result is the final counter.
\<close>

fun enumMembers :: "addr \<Rightarrow> nat \<Rightarrow> Identifier list \<Rightarrow> DocumentASTWalker
    \<Rightarrow> (nat \<times> DocumentASTWalker) option" where
  "enumMembers symbol count [] w = Some (count, w)"
| "enumMembers symbol count (memberNode # rest) w =
     (case visitEnumMember memberNode w of
        None \<Rightarrow> None
      | Some (memberSymbol, w1) \<Rightarrow>
          enumMembers symbol (Suc count) rest
            (w1\<lparr>store := (store w1)(memberSymbol :=
                   (store w1 memberSymbol)\<lparr>outer := Some symbol, enum_value := Some count\<rparr>)\<rparr>))"

text \<open>
  \<open>visitEnumDecl\<close>. The scope is popped in a \<open>finally\<close> block; an exception goes on to the
  caller after it, and is the result \<open>None\<close> here.
\<close>

definition visitEnumDecl ::
  "EnumDeclContext \<Rightarrow> DocumentASTWalker \<Rightarrow> (addr \<times> DocumentASTWalker) option" where
  "visitEnumDecl ctx w =
     (let (symbol, w1) = newSymbol (enum_id ctx) (enum_range ctx) EnumSymbol w
      in case declareSymbol symbol w1 of
           None \<Rightarrow> None
         | Some w2 \<Rightarrow>
             (let w3 = wpush symbol (w2\<lparr>objectsTable := objectsTable w2 @ [symbol]\<rparr>)
              in case enumMembers symbol 0 (enumMember ctx) w3 of
                   None \<Rightarrow> None
                 | Some (count, w4) \<Rightarrow>
                     (let (enumCountMember, w5) =
                            newSymbol \<lparr>id_name = NAME_ENUMCOUNT, id_range = declRange (store w4 symbol)\<rparr>
                              (declRange (store w4 symbol)) FieldSymbol w4
                      in case declareSymbol enumCountMember w5 of
                           None \<Rightarrow> None
                         | Some w6 \<Rightarrow>
                             Some (symbol,
                                   wpop (w6\<lparr>store := (store w6)(enumCountMember :=
                                           (store w6 enumCountMember)
                                             \<lparr>outer := Some symbol, enum_value := Some count\<rparr>)\<rparr>)))))"

subsection \<open>visitFunctionDecl\<close>

text \<open>
  The specifier tokens of a function declaration, by token type. \<open>KW_OPERATOR\<close> carries
  the number that \<open>Number(text)\<close> reads from the precedence token, when the specifier has
  one; \<open>KW_OTHER\<close> is any token type that the \<open>switch\<close> has no case for.
\<close>

datatype FunctionSpecifier =
    KW_NATIVE | KW_CONST | KW_PROTECTED | KW_PRIVATE
  | KW_FUNCTION | KW_OPERATOR "int option" | KW_PREOPERATOR | KW_POSTOPERATOR
  | KW_DELEGATE | KW_EVENT | KW_STATIC | KW_FINAL | KW_OTHER

text \<open>The bit flags \<open>FieldModifiers\<close> and \<open>MethodSpecifiers\<close>, as sets of flags.\<close>

datatype FieldModifier = Native | Const | Protected | Private

datatype MethodSpecifier =
    SpecFunction | SpecOperator | SpecPreOperator | SpecPostOperator
  | SpecDelegate | SpecEvent | SpecStatic | SpecFinal

text \<open>The classes a method symbol is created from.\<close>

datatype MethodType =
    TMethodSymbol | TEventSymbol | TBinaryOperatorSymbol | TPreOperatorSymbol
  | TPostOperatorSymbol | TDelegateSymbol

text \<open>
  The loop over the specifier nodes: the three local variables \<open>modifiers\<close>,
  \<open>specifiers\<close> and \<open>precedence\<close>.
\<close>

fun functionSpecifiers ::
  "FunctionSpecifier list \<Rightarrow> FieldModifier set \<times> MethodSpecifier set \<times> int option
     \<Rightarrow> FieldModifier set \<times> MethodSpecifier set \<times> int option" where
  "functionSpecifiers [] v = v"
| "functionSpecifiers (specifier # rest) (modifiers, specifiers, prec) =
     functionSpecifiers rest
       (case specifier of
          KW_NATIVE \<Rightarrow> (insert Native modifiers, specifiers, prec)
        | KW_CONST \<Rightarrow> (insert Const modifiers, specifiers, prec)
        | KW_PROTECTED \<Rightarrow> (insert Protected modifiers, specifiers, prec)
        | KW_PRIVATE \<Rightarrow> (insert Private modifiers, specifiers, prec)
        | KW_FUNCTION \<Rightarrow> (modifiers, insert SpecFunction specifiers, prec)
        | KW_OPERATOR operatorPrecedence \<Rightarrow>
            (modifiers, insert SpecOperator specifiers,
             (case operatorPrecedence of None \<Rightarrow> prec | Some n \<Rightarrow> Some n))
        | KW_PREOPERATOR \<Rightarrow> (modifiers, insert SpecPreOperator specifiers, prec)
        | KW_POSTOPERATOR \<Rightarrow> (modifiers, insert SpecPostOperator specifiers, prec)
        | KW_DELEGATE \<Rightarrow> (modifiers, insert SpecDelegate specifiers, prec)
        | KW_EVENT \<Rightarrow> (modifiers, insert SpecEvent specifiers, prec)
        | KW_STATIC \<Rightarrow> (modifiers, insert SpecStatic specifiers, prec)
        | KW_FINAL \<Rightarrow> (modifiers, insert SpecFinal specifiers, prec)
        | KW_OTHER \<Rightarrow> (modifiers, specifiers, prec))"

definition methodType :: "MethodSpecifier set \<Rightarrow> MethodType" where
  "methodType specifiers =
     (if SpecFunction \<in> specifiers then TMethodSymbol
      else if SpecEvent \<in> specifiers then TEventSymbol
      else if SpecOperator \<in> specifiers then TBinaryOperatorSymbol
      else if SpecPreOperator \<in> specifiers then TPreOperatorSymbol
      else if SpecPostOperator \<in> specifiers then TPostOperatorSymbol
      else if SpecDelegate \<in> specifiers then TDelegateSymbol
      else TMethodSymbol)"

text \<open>
  Modelled from the spec: the mask \<open>MethodSpecifiers.HasKind\<close>, declared outside the
  sources, holds the flags of the kinds that the message of the walker lists ("the
  specifiers bit-flags distinguishing Function/Event/Operator/PreOperator/PostOperator/
  Delegate").
\<close>

definition HasKind :: "MethodSpecifier set" where
  "HasKind =
     {SpecFunction, SpecEvent, SpecOperator, SpecPreOperator, SpecPostOperator, SpecDelegate}"

text \<open>
  Modelled from the spec: what the analyzer reads from an object of a method class. The
  method classes are not in the sources; the operator classes answer
  \<open>SymbolKind.Operator\<close> to \<open>getKind()\<close>, an event answers \<open>SymbolKind.Event\<close>, and
  \<open>isFinal()\<close> reads the \<open>final\<close> flag of the specifiers ("Operator methods must be
  final"). A new object has no parameter list, no precedence and no
  \<open>requiredParamsCount\<close> yet.
\<close>

definition newMethod ::
  "MethodType \<Rightarrow> addr \<Rightarrow> Identifier \<Rightarrow> MethodSpecifier set \<Rightarrow> UCMethodSymbol" where
  "newMethod t a i specifiers =
     \<lparr>method_addr = a, method_name = id_name i, method_range = id_range i,
      getKind = (if t = TBinaryOperatorSymbol \<or> t = TPreOperatorSymbol \<or> t = TPostOperatorSymbol
                 then Operator else if t = TEventSymbol then Event else Function),
      isFinal = (SpecFinal \<in> specifiers),
      instanceofBinaryOperator = (t = TBinaryOperatorSymbol),
      params = None, precedence = None, requiredParamsCount = None\<rparr>"

text \<open>
  The head of \<open>visitFunctionDecl\<close>, up to the assignment of the precedence: the symbol it
  creates for the function at the address \<open>a\<close>, and the nodes it adds to the document.
  \<open>if (precedence)\<close> is false for \<open>undefined\<close> and for the number 0.
\<close>

definition functionDeclSymbol ::
  "addr \<Rightarrow> Identifier \<Rightarrow> Range \<Rightarrow> FunctionSpecifier list
     \<Rightarrow> UCMethodSymbol \<times> DiagnosticNode list" where
  "functionDeclSymbol a i start specifierNodes =
     (let (modifiers, specifiers, prec) = functionSpecifiers specifierNodes ({}, {}, None);
          nodes =
            (if specifiers \<inter> HasKind = {}
             then [SyntaxErrorNode start
                     ''Method must be declared as either one of the following: (Function, Event, Operator, PreOperator, PostOperator, or Delegate).'']
             else []);
          symbol = newMethod (methodType specifiers) a i specifiers
      in (if falsy prec then symbol else symbol\<lparr>precedence := prec\<rparr>, nodes))"

section \<open>Member expressions\<close>

text \<open>
  A reference to a symbol by name: its identifier, the symbol it was resolved to
  (\<open>getReference()\<close>), and whether it stands where a value is assigned.
\<close>

record UCSymbolReference =
  ref_id :: Identifier
  reference :: "addr option"
  inAssignment :: "bool option"

text \<open>
  What \<open>index\<close> reads of the parent expression \<open>this.outer\<close>: whether it is a call
  (the tree builder makes the call the outer of its callee and of each of its arguments); an
  assignment, and then whether its left side is this expression; a property access, and
  then whether its member is this expression and whether it is itself the left side of
  an assignment.
\<close>

datatype OuterExpression =
    OuterCall
  | OuterAssignment bool
  | OuterPropertyAccess bool bool
  | OuterOther

record UCMemberExpression =
  symbolRef :: UCSymbolReference
  outerExpression :: OuterExpression

text \<open>
  The tables that \<open>index\<close> consults and that are filled elsewhere: the map of type casts,
  the tables of classes and of objects, and the table of enum members behind
  \<open>getEnumMember\<close>. A name is an interned, case-insensitive token: it is represented by
  its lower-case text.
\<close>

record Tables =
  TypeCastMap :: "string \<Rightarrow> addr option"
  ClassesTable :: "string \<Rightarrow> addr option"
  ObjectsTable :: "string \<Rightarrow> addr option"
  getEnumMember :: "string \<Rightarrow> addr option"

text \<open>
  Modelled from the spec: \<open>setReference\<close> of a symbol reference, which is not in the
  sources, stores the symbol as the target of the reference ("the reference's target").
\<close>

definition setReference :: "addr \<Rightarrow> UCMemberExpression \<Rightarrow> UCMemberExpression" where
  "setReference symbol e = e\<lparr>symbolRef := (symbolRef e)\<lparr>reference := Some symbol\<rparr>\<rparr>"

definition getMemberSymbol :: "UCMemberExpression \<Rightarrow> addr option" where
  "getMemberSymbol e = reference (symbolRef e)"

definition assignmentPosition :: "OuterExpression \<Rightarrow> bool" where
  "assignmentPosition out =
     (case out of
        OuterAssignment leftIsThis \<Rightarrow> leftIsThis
      | OuterPropertyAccess memberIsThis outerIsLeft \<Rightarrow> memberIsThis \<and> outerIsLeft
      | _ \<Rightarrow> False)"

text \<open>
  \<open>UCMemberExpression.index(document, context)\<close>, on the expression and the nodes of the
  document. The result is \<open>None\<close> when the search through the context does not return
  within the fuel \<open>n\<close>.
\<close>

definition UCMemberExpression_index ::
  "Tables \<Rightarrow> heap \<Rightarrow> nat \<Rightarrow> addr \<Rightarrow> UCMemberExpression \<times> DiagnosticNode list
     \<Rightarrow> (UCMemberExpression \<times> DiagnosticNode list) option" where
  "UCMemberExpression_index g h n ctx v =
     (let (e, nodes) = v;
          i = toLowerCase (id_name (ref_id (symbolRef e)));
          hasArguments = (outerExpression e = OuterCall);
          (e1, returned) =
            (if hasArguments then
               (case TypeCastMap g i of
                  Some t \<Rightarrow> (setReference t e, False)
                | None \<Rightarrow>
                    (case (case ClassesTable g i of Some t \<Rightarrow> Some t | None \<Rightarrow> ObjectsTable g i) of
                       Some t \<Rightarrow> (setReference t e, True)
                     | None \<Rightarrow> (e, False)))
             else (e, False))
      in if returned then Some (e1, nodes)
         else
           (case findSuperSymbol h n ctx i of
              None \<Rightarrow> None
            | Some found \<Rightarrow>
                (case (case found of Some symbol \<Rightarrow> Some symbol | None \<Rightarrow> getEnumMember g i) of
                   None \<Rightarrow> Some (e1, nodes)
                 | Some symbol \<Rightarrow>
                     Some ((setReference symbol e1)
                             \<lparr>symbolRef := (symbolRef (setReference symbol e1))
                                \<lparr>inAssignment := Some (assignmentPosition (outerExpression e))\<rparr>\<rparr>,
                           nodes))))"

text \<open>
  \<open>UCMemberExpression.analyze(document, context)\<close>, on the nodes of the document. The
  context is optional and may be any symbol.
\<close>

definition UCMemberExpression_analyze ::
  "heap \<Rightarrow> addr option \<Rightarrow> UCMemberExpression \<Rightarrow> DiagnosticNode list \<Rightarrow> DiagnosticNode list" where
  "UCMemberExpression_analyze h ctx e nodes =
     (let unrecognized =
            (if getMemberSymbol e = None
             then nodes @ [UnrecognizedFieldNode (ref_id (symbolRef e)) ctx]
             else nodes)
      in case ctx of
           None \<Rightarrow> unrecognized
         | Some c \<Rightarrow>
             if \<not> instanceofStruct (instanceOf (h c))
             then nodes @ [SemanticErrorNode (ref_id (symbolRef e)) (InaccessibleType c)]
             else unrecognized)"

section \<open>Symbols at a position\<close>

text \<open>
  \<open>UCSymbol.getSymbolAtPos(position)\<close>:
  \<open>intersectsWithRange(position, this.getRange()) && this.getContainedSymbolAtPos(position) || this\<close>.
  The helper \<open>intersectsWithRange\<close> is declared outside the sources and
  \<open>getContainedSymbolAtPos\<close> is a method that subclasses override (the one of \<open>UCSymbol\<close>
  returns \<open>undefined\<close>); both are parameters. The declared result is a symbol or
  \<open>undefined\<close>.
\<close>

definition getSymbolAtPos ::
  "(Position \<Rightarrow> Range \<Rightarrow> bool) \<Rightarrow> (addr \<Rightarrow> Position \<Rightarrow> addr option)
     \<Rightarrow> heap \<Rightarrow> addr \<Rightarrow> Position \<Rightarrow> addr option" where
  "getSymbolAtPos intersectsWithRange getContainedSymbolAtPos h this position =
     (case (if intersectsWithRange position (declRange (h this))
            then getContainedSymbolAtPos this position else None) of
        Some symbol \<Rightarrow> Some symbol
      | None \<Rightarrow> Some this)"

definition UCSymbol_getContainedSymbolAtPos :: "addr \<Rightarrow> Position \<Rightarrow> addr option" where
  "UCSymbol_getContainedSymbolAtPos this position = None"

section \<open>Auxiliary notions\<close>

text \<open>
  The members of an enum in the order of their declaration, each with its name and its
  value; and the entries of the \<open>types\<close> map of a struct, in the order of the map.
\<close>

definition memberView :: "heap \<Rightarrow> addr \<Rightarrow> (string \<times> nat option) list" where
  "memberView h e = map (\<lambda>a. (getName (h a), enum_value (h a))) (rev (children (h e)))"

definition typesList :: "heap \<Rightarrow> addr \<Rightarrow> (string \<times> addr) list" where
  "typesList h this = (case types (h this) of None \<Rightarrow> [] | Some m \<Rightarrow> m)"




text \<open>
  The values of a \<open>Map\<close> after the elements \<open>ts\<close> were entered one after the other, each
  under its key: a key keeps the place of its first entry and holds the element that was
  entered last under it.
\<close>

fun typeEntries :: "('a \<Rightarrow> 'k) \<Rightarrow> 'a list \<Rightarrow> 'a list" where
  "typeEntries key [] = []"
| "typeEntries key (t # ts) =
     last (t # filter (\<lambda>a. key a = key t) ts) # typeEntries key (filter (\<lambda>a. key a \<noteq> key t) ts)"

text \<open>
  A heap on which the searches return: a rank \<open>up\<close> goes down along every super link
  and every outer link that \<open>findSuperSymbol\<close> follows, a rank \<open>down\<close>, below the bound
  \<open>D\<close>, goes down from an enum to its children. A graph without a cycle of such links has
  such ranks.
\<close>

definition ranked :: "heap \<Rightarrow> (addr \<Rightarrow> nat) \<Rightarrow> (addr \<Rightarrow> nat) \<Rightarrow> nat \<Rightarrow> bool" where
  "ranked h up down D =
     (\<forall>a. down a < D
        \<and> (\<forall>b. super (h a) = Some b \<and> instanceOf (h a) \<noteq> MethodSymbol \<longrightarrow> up b < up a)
        \<and> (\<forall>b. outer (h a) = Some b
               \<and> (instanceOf (h a) = MethodSymbol \<or> instanceOf (h a) = StateSymbol)
               \<and> instanceofStruct (instanceOf (h b)) \<longrightarrow> up b < up a)
        \<and> (instanceOf (h a) = EnumSymbol \<longrightarrow> (\<forall>c \<in> set (children (h a)). down c < down a)))"

text \<open>
  For the runs of the index. No owning document that is set in \<open>h\<close> is unset in \<open>h'\<close>; a
  property of heaps that stays true when none is unset; two type indexes that do the
  same on the states with such a property, and keep it; and the number of documents of
  the table whose class has no owning document yet.
\<close>

definition keepsDocuments :: "heap \<Rightarrow> heap \<Rightarrow> bool" where
  "keepsDocuments h h' = (\<forall>a. document (h a) \<noteq> None \<longrightarrow> document (h' a) \<noteq> None)"

definition upward :: "(heap \<Rightarrow> bool) \<Rightarrow> bool" where
  "upward J = (\<forall>h h'. J h \<longrightarrow> keepsDocuments h h' \<longrightarrow> J h')"

definition agreeOn :: "(heap \<Rightarrow> bool) \<Rightarrow> typeIndexRun \<Rightarrow> typeIndexRun \<Rightarrow> bool" where
  "agreeOn J ti ti' =
     (\<forall>t c s. J (fst s) \<longrightarrow>
        ti t c s = ti' t c s \<and> (\<forall>t' s'. ti t c s = Some (t', s') \<longrightarrow> J (fst s')))"

definition pending :: "documents \<Rightarrow> heap \<Rightarrow> nat" where
  "pending docs h = length (filter (\<lambda>e. document (h (snd (snd e))) = None) docs)"



section \<open>Example inputs\<close>

definition lineRange :: "nat \<Rightarrow> Range" where
  "lineRange n = \<lparr>rstart = \<lparr>line = n, character = 0\<rparr>, rend = \<lparr>line = n, character = 10\<rparr>\<rparr>"

definition emptyAnalyzer :: DocumentAnalyzer where
  "emptyAnalyzer = \<lparr>scopes = [], innermost = None, diagnostics = []\<rparr>"

text \<open>The parameters of a method declared with \<open>(optional int a, int b)\<close>.\<close>

definition optional_a :: UCParamSymbol where
  "optional_a = \<lparr>param_name = ''a'', param_range = lineRange 1, isOptional = True\<rparr>"

definition required_b :: UCParamSymbol where
  "required_b = \<lparr>param_name = ''b'', param_range = lineRange 2, isOptional = False\<rparr>"

definition optionalBeforeRequired :: UCMethodSymbol where
  "optionalBeforeRequired =
     \<lparr>method_addr = 7, method_name = ''f'', method_range = lineRange 0, getKind = Function,
      isFinal = False, instanceofBinaryOperator = False,
      params = Some [optional_a, required_b], precedence = None,
      requiredParamsCount = None\<rparr>"

text \<open>
  A fixed array of \<open>bool\<close> with the dimension \<open>n\<close> (\<open>None\<close> when the dimension does not
  evaluate to a number).
\<close>

definition boolType :: UCTypeSymbol where
  "boolType = \<lparr>type_name = ''bool'', type_range = lineRange 3, getTypeText = ''bool'',
               getReference = Some PredefinedBool\<rparr>"

definition fixedArray :: "int option \<Rightarrow> UCPropertySymbol" where
  "fixedArray n = \<lparr>prop_name = ''flags'', prop_range = lineRange 3, isFixedArray = True,
      arrayDimRange = Some (lineRange 4), getArrayDimSize = n, prop_type = Some boolType\<rparr>"

text \<open>
  The symbol that the walker builds for \<open>static final operator(p) Dot(b, b)\<close>, with its
  two parameters.
\<close>

definition finalOperator :: "int option \<Rightarrow> UCMethodSymbol" where
  "finalOperator p =
     (fst (functionDeclSymbol 9 \<lparr>id_name = ''Dot'', id_range = lineRange 5\<rparr> (lineRange 5)
            [KW_STATIC, KW_FINAL, KW_OPERATOR p]))
       \<lparr>params := Some [required_b, required_b]\<rparr>"

text \<open>
  A heap of two classes: the class \<open>A\<close> at 1 declares the properties \<open>X\<close> (at 3) and
  \<open>B\<close> (at 4); the class \<open>B\<close> at 2 extends \<open>A\<close>, has \<open>A\<close> as its super, and declares the
  property \<open>Y\<close> (at 5); the class \<open>C\<close> stands at 6. \<open>unindexed\<close> is the same heap before
  \<open>B\<close> is indexed, and \<open>unindexedWithin\<close> has \<open>B\<close> declared within \<open>C\<close>.
  \<open>resolveByName\<close> resolves a type reference to the class of its name.
\<close>

definition noSymbol :: UCSymbol where
  "noSymbol =
     \<lparr>ident = \<lparr>id_name = [], id_range = lineRange 0\<rparr>, declRange = lineRange 0,
      instanceOf = FieldSymbol, outer = None, super = None, children = [], types = None,
      extendsType = None, withinType = None, dependsOnTypes = None, implementsTypes = None,
      scriptBlock = None, document = None, enum_value = None\<rparr>"

definition named :: "string \<Rightarrow> SymbolClass \<Rightarrow> UCSymbol" where
  "named n c = noSymbol\<lparr>ident := \<lparr>id_name = n, id_range = lineRange 0\<rparr>, instanceOf := c\<rparr>"

definition typeNamed :: "string \<Rightarrow> UCTypeSymbol" where
  "typeNamed n = \<lparr>type_name = n, type_range = lineRange 0, getTypeText = n, getReference = None\<rparr>"

definition classes :: heap where
  "classes = (\<lambda>_. noSymbol)
     (1 := (named ''A'' ClassSymbol)\<lparr>children := [4, 3]\<rparr>,
      2 := (named ''B'' ClassSymbol)\<lparr>children := [5], super := Some 1, extendsType := Some (typeNamed ''A'')\<rparr>,
      3 := (named ''X'' FieldSymbol)\<lparr>outer := Some 1\<rparr>,
      4 := (named ''B'' FieldSymbol)\<lparr>outer := Some 1\<rparr>,
      5 := (named ''Y'' FieldSymbol)\<lparr>outer := Some 2\<rparr>,
      6 := named ''C'' ClassSymbol)"

text \<open>Ranks for this heap: the class \<open>B\<close> stands above its super \<open>A\<close>.\<close>

definition classRank :: "addr \<Rightarrow> nat" where
  "classRank a = (if a = 2 then 1 else 0)"

definition resolveByName :: typeIndexer where
  "resolveByName t ctx =
     t\<lparr>getReference := (if type_name t = ''A'' then Some 1
                         else if type_name t = ''C'' then Some 6 else None)\<rparr>"

definition unindexed :: heap where
  "unindexed = classes(2 := (classes 2)\<lparr>super := None\<rparr>)"


text \<open>
  A class \<open>K\<close> at 30 with an enum \<open>E\<close> (31) of one member \<open>M\<close> (32), a property \<open>P\<close> (33)
  and a method \<open>F\<close> (34) with a local \<open>L\<close> (35); the super of the method is the method
  \<open>G\<close> (36) with a local \<open>N\<close> (37).
\<close>

definition scopes :: heap where
  "scopes = (\<lambda>_. noSymbol)
     (30 := (named ''K'' ClassSymbol)\<lparr>children := [34, 33, 31]\<rparr>,
      31 := (named ''E'' EnumSymbol)\<lparr>outer := Some 30, children := [32]\<rparr>,
      32 := (named ''M'' FieldSymbol)\<lparr>outer := Some 31\<rparr>,
      33 := (named ''P'' FieldSymbol)\<lparr>outer := Some 30\<rparr>,
      34 := (named ''F'' MethodSymbol)\<lparr>outer := Some 30, super := Some 36, children := [35]\<rparr>,
      35 := (named ''L'' FieldSymbol)\<lparr>outer := Some 34\<rparr>,
      36 := (named ''G'' MethodSymbol)\<lparr>children := [37]\<rparr>,
      37 := (named ''N'' FieldSymbol)\<lparr>outer := Some 36\<rparr>)"

text \<open>
  Empty tables; tables that know a class \<open>X\<close> (at 7); and the member expression for the
  identifier \<open>n\<close> on line 8.
\<close>

definition noTables :: Tables where
  "noTables = \<lparr>TypeCastMap = (\<lambda>_. None), ClassesTable = (\<lambda>_. None), ObjectsTable = (\<lambda>_. None),
     getEnumMember = (\<lambda>_. None)\<rparr>"


definition memberNamed :: "string \<Rightarrow> UCMemberExpression" where
  "memberNamed n =
     \<lparr>symbolRef = \<lparr>ref_id = \<lparr>id_name = n, id_range = lineRange 8\<rparr>, reference = None, inAssignment = None\<rparr>,
      outerExpression = OuterOther\<rparr>"

text \<open>
  A struct \<open>S\<close> at 10 with an extends clause and a script block, before its body is
  declared; the symbols of its body: the properties \<open>P\<close> (11) and \<open>Q\<close> (13), the struct
  \<open>T\<close> (12) and the enum \<open>E\<close> (14); and a second struct of the same lower-case name,
  \<open>t\<close> (15).
\<close>

definition structBody :: heap where
  "structBody = (\<lambda>_. noSymbol)
     (10 := (named ''S'' ScriptStructSymbol)
              \<lparr>extendsType := Some (typeNamed ''A''), scriptBlock := Some 20\<rparr>,
      11 := named ''P'' FieldSymbol,
      12 := named ''T'' ScriptStructSymbol,
      13 := named ''Q'' FieldSymbol,
      14 := named ''E'' EnumSymbol,
      15 := named ''t'' ScriptStructSymbol)"

text \<open>
  Two classes that depend on each other: \<open>A\<close> at 40, with a property \<open>P\<close> (42), depends on
  \<open>B\<close>, and \<open>B\<close> at 41 depends on \<open>A\<close>; their documents; and the heap and the calls after
  the index of \<open>A\<close>.
\<close>

definition mutual :: heap where
  "mutual = (\<lambda>_. noSymbol)
     (40 := (named ''A'' ClassSymbol)\<lparr>children := [42], dependsOnTypes := Some [typeNamed ''B'']\<rparr>,
      41 := (named ''B'' ClassSymbol)\<lparr>dependsOnTypes := Some [typeNamed ''A'']\<rparr>,
      42 := (named ''P'' FieldSymbol)\<lparr>outer := Some 40\<rparr>)"

definition mutualDocuments :: documents where
  "mutualDocuments = [(''a'', ''A.uc'', 40), (''b'', ''B.uc'', 41)]"

definition mutualIndexed :: heap where
  "mutualIndexed = mutual
     (40 := (mutual 40)\<lparr>document := Some ''A.uc'',
              dependsOnTypes := Some [(typeNamed ''B'')\<lparr>getReference := Some 41\<rparr>]\<rparr>,
      41 := (mutual 41)\<lparr>document := Some ''B.uc'',
              dependsOnTypes := Some [(typeNamed ''A'')\<lparr>getReference := Some 40\<rparr>]\<rparr>)"

definition mutualCalls :: "IndexCall list" where
  "mutualCalls =
     [TypeIndex (typeNamed ''B'') 40, SymbolIndex 41 41,
      TypeIndex (typeNamed ''A'') 41, SymbolIndex 40 40, SymbolIndex 42 40]"

text \<open>
  A walker at the start of a document, with the package at 0 as its only scope; a class
  declaration of the name \<open>n\<close>; the declaration \<open>enum E { A, B, C }\<close>.
\<close>

definition packageWalker :: DocumentASTWalker where
  "packageWalker =
     \<lparr>store = (\<lambda>_. noSymbol)(0 := named ''Core'' Package), fresh = 1, wscopes = [0],
      document_path = ''B.uc'', document_class = None, document_nodes = [],
      document_symbols = [], objectsTable = [], enumMemberTable = []\<rparr>"


definition enumE :: EnumDeclContext where
  "enumE =
     \<lparr>enum_id = \<lparr>id_name = ''E'', id_range = lineRange 1\<rparr>, enum_range = lineRange 1,
      enumMember = [\<lparr>id_name = ''A'', id_range = lineRange 2\<rparr>,
                    \<lparr>id_name = ''B'', id_range = lineRange 3\<rparr>,
                    \<lparr>id_name = ''C'', id_range = lineRange 4\<rparr>]\<rparr>"

section \<open>Properties of the diagnostics pass\<close>

subsection \<open>Parameters of a method\<close>

lemma paramsLoop_fst:
  "fst (paramsLoop n ps) = n + length (takeWhile (\<lambda>p. \<not> isOptional p) ps)"
  by (induction ps arbitrary: n) auto

lemma trailingParams_filter:
  "trailingParams ps = map mustBeOptional (filter (\<lambda>p. \<not> isOptional p) ps)"
  by (induction ps) auto

lemma paramsLoop_snd:
  "snd (paramsLoop n ps) =
     map mustBeOptional (filter (\<lambda>p. \<not> isOptional p)
       (drop (Suc (length (takeWhile (\<lambda>p. \<not> isOptional p) ps))) ps))"
  by (induction ps arbitrary: n) (auto simp: trailingParams_filter)

lemma operatorChecks_requiredParamsCount:
  "operatorChecks (m\<lparr>requiredParamsCount := x\<rparr>) = operatorChecks m"
  by (simp add: operatorChecks_def split: option.splits)

text \<open>
  Claim C3, as amended. For a method with a parameter list \<open>ps\<close>, \<open>visitMethod\<close> sets
  \<open>requiredParamsCount\<close> to the number of parameters before the first optional one, which
  is the index of the first optional parameter, or the length of the list when no
  parameter is optional; and the diagnostics it adds for the parameters are exactly one
  per parameter that is not optional and stands after the first optional one, in order
  (so the first violation of the trailing run is reported). For the method declared with
  \<open>optional int a, int b\<close> this flags exactly \<open>b\<close> and leaves the count at 0, not at 1: see
  the witness and the counterexample.
\<close>

theorem visitMethod_params:
  assumes "params symbol = Some ps"
  shows "requiredParamsCount (fst (visitMethod superVisit symbol a))
           = Some (length (takeWhile (\<lambda>p. \<not> isOptional p) ps))
       \<and> diagnostics (snd (visitMethod superVisit symbol a))
           = diagnostics (superVisit (push (Some (method_addr symbol)) a))
             @ map mustBeOptional (filter (\<lambda>p. \<not> isOptional p)
                 (drop (Suc (length (takeWhile (\<lambda>p. \<not> isOptional p) ps))) ps))
             @ operatorChecks symbol"
proof -
  obtain n ds where nd: "paramsLoop 0 ps = (n, ds)"
    by (cases "paramsLoop 0 ps")
  have n: "n = length (takeWhile (\<lambda>p. \<not> isOptional p) ps)"
    using paramsLoop_fst [of 0 ps] nd by simp
  have ds: "ds = map mustBeOptional (filter (\<lambda>p. \<not> isOptional p) (drop (Suc n) ps))"
    using paramsLoop_snd [of 0 ps] nd n by simp
  show ?thesis
    using assms nd n ds
    by (simp add: visitMethod_def Let_def pop_def operatorChecks_requiredParamsCount)
qed

theorem visitMethod_params_witness:
  "params optionalBeforeRequired = Some [optional_a, required_b]
   \<and> requiredParamsCount (fst (visitMethod id optionalBeforeRequired emptyAnalyzer)) = Some 0
   \<and> diagnostics (snd (visitMethod id optionalBeforeRequired emptyAnalyzer))
       = [\<lparr>drange = lineRange 2, dmessage = ParamMustBeOptional ''b''\<rparr>]"
proof -
  have p: "params optionalBeforeRequired = Some [optional_a, required_b]"
    by (simp add: optionalBeforeRequired_def)
  show ?thesis
    using visitMethod_params [OF p, of id emptyAnalyzer] p
    by (simp add: optional_a_def required_b_def emptyAnalyzer_def push_def
        operatorChecks_def optionalBeforeRequired_def mustBeOptional_def)
qed

text \<open>
  Claim C3 as stated fails: for \<open>optional int a, int b\<close> the count is not 1.
\<close>

theorem visitMethod_params_counterexample:
  "requiredParamsCount (fst (visitMethod id optionalBeforeRequired emptyAnalyzer)) \<noteq> Some 1"
  by (simp add: visitMethod_def optionalBeforeRequired_def optional_a_def Let_def)

subsection \<open>Fixed arrays\<close>

text \<open>
  Claim C4, as amended. For a property that is a fixed array with a recorded dimension
  range \<open>r\<close>, \<open>visitProperty\<close> adds the size diagnostics and then the type diagnostics,
  all at most one each:
  \<^item> a size that does not evaluate to a number gives exactly the bad-size error at \<open>r\<close>;
  \<^item> the size 0 gives exactly one size diagnostic;
  \<^item> any other size below 2 (the size 1), and a size above 2048, gives exactly the
    illegal-size error at \<open>r\<close>, which is another error than the bad-size one;
  \<^item> a size from 2 to 2048 gives no size diagnostic;
  \<^item> when the configuration asks for type checks, an element type that resolved to
    \<open>bool\<close> or to the native array type gives the illegal-array-type error at the range
    of the type.
\<close>

theorem visitProperty_fixed_array:
  assumes "isFixedArray symbol" and "arrayDimRange symbol = Some r"
  shows "diagnostics (visitProperty cfg superVisit symbol a)
           = diagnostics (superVisit a) @ arraySizeChecks r (getArrayDimSize symbol)
             @ arrayTypeChecks cfg (prop_type symbol)
     \<and> (getArrayDimSize symbol = None \<longrightarrow>
          arraySizeChecks r (getArrayDimSize symbol) = [\<lparr>drange = r, dmessage = BadArraySize\<rparr>])
     \<and> (getArrayDimSize symbol = Some 0 \<longrightarrow>
          length (arraySizeChecks r (getArrayDimSize symbol)) = 1)
     \<and> (\<forall>n. getArrayDimSize symbol = Some n \<and> n \<noteq> 0 \<and> (n \<le> 1 \<or> 2048 < n) \<longrightarrow>
          arraySizeChecks r (getArrayDimSize symbol) = [\<lparr>drange = r, dmessage = IllegalArraySize\<rparr>])
     \<and> (\<forall>n. getArrayDimSize symbol = Some n \<and> 2 \<le> n \<and> n \<le> 2048 \<longrightarrow>
          arraySizeChecks r (getArrayDimSize symbol) = [])
     \<and> (\<forall>t. prop_type symbol = Some t \<and> checkTypes cfg
            \<and> (getReference t = Some PredefinedBool \<or> getReference t = Some NativeArray) \<longrightarrow>
          arrayTypeChecks cfg (prop_type symbol)
            = [\<lparr>drange = type_range t, dmessage = IllegalArrayType (getTypeText t)\<rparr>])"
  using assms
  by (auto simp: visitProperty_def arraySizeChecks_def arrayTypeChecks_def falsy_def Let_def)

theorem visitProperty_fixed_array_witness:
  "diagnostics (visitProperty \<lparr>checkTypes = False\<rparr> id (fixedArray None) emptyAnalyzer)
     = [\<lparr>drange = lineRange 4, dmessage = BadArraySize\<rparr>]
   \<and> length (diagnostics (visitProperty \<lparr>checkTypes = False\<rparr> id (fixedArray (Some 0)) emptyAnalyzer)) = 1
   \<and> diagnostics (visitProperty \<lparr>checkTypes = False\<rparr> id (fixedArray (Some 1)) emptyAnalyzer)
     = [\<lparr>drange = lineRange 4, dmessage = IllegalArraySize\<rparr>]
   \<and> diagnostics (visitProperty \<lparr>checkTypes = False\<rparr> id (fixedArray (Some 3000)) emptyAnalyzer)
     = [\<lparr>drange = lineRange 4, dmessage = IllegalArraySize\<rparr>]
   \<and> diagnostics (visitProperty \<lparr>checkTypes = False\<rparr> id (fixedArray (Some 5)) emptyAnalyzer) = []
   \<and> diagnostics (visitProperty \<lparr>checkTypes = True\<rparr> id (fixedArray (Some 5)) emptyAnalyzer)
     = [\<lparr>drange = lineRange 3, dmessage = IllegalArrayType ''bool''\<rparr>]"
proof -
  have f: "isFixedArray (fixedArray n)"
    and r: "arrayDimRange (fixedArray n) = Some (lineRange 4)" for n
    by (simp_all add: fixedArray_def)
  note t = visitProperty_fixed_array [OF f r]
  show ?thesis
    using t [of "\<lparr>checkTypes = False\<rparr>" id None emptyAnalyzer]
      t [of "\<lparr>checkTypes = False\<rparr>" id "Some 0" emptyAnalyzer]
      t [of "\<lparr>checkTypes = False\<rparr>" id "Some 1" emptyAnalyzer]
      t [of "\<lparr>checkTypes = False\<rparr>" id "Some 3000" emptyAnalyzer]
      t [of "\<lparr>checkTypes = False\<rparr>" id "Some 5" emptyAnalyzer]
      t [of "\<lparr>checkTypes = True\<rparr>" id "Some 5" emptyAnalyzer]
    by (simp add: fixedArray_def boolType_def emptyAnalyzer_def arrayTypeChecks_def)
qed

text \<open>
  Claim C4 as stated fails: with type checks switched off in the configuration, a fixed
  array whose element type resolved to \<open>bool\<close> gets no diagnostic at all.
\<close>

theorem visitProperty_fixed_array_counterexample:
  "isFixedArray (fixedArray (Some 5))
   \<and> getReference boolType = Some PredefinedBool
   \<and> prop_type (fixedArray (Some 5)) = Some boolType
   \<and> diagnostics (visitProperty \<lparr>checkTypes = False\<rparr> id (fixedArray (Some 5)) emptyAnalyzer) = []"
  by (simp add: visitProperty_def fixedArray_def boolType_def emptyAnalyzer_def
      arraySizeChecks_def arrayTypeChecks_def falsy_def)

subsection \<open>Operators\<close>

text \<open>
  The rule on \<open>final\<close>: a method of kind operator gets the must-be-final error once when
  it is not final, and not at all when it is.
\<close>

lemma operatorChecks_final:
  "getKind m = Operator \<Longrightarrow>
     length (filter (\<lambda>d. dmessage d = OperatorMustBeFinal) (operatorChecks m))
       = (if isFinal m then 0 else 1)"
  by (simp add: operatorChecks_def split: option.splits)

text \<open>
  Claim C5 at the precedence 0. The declaration \<open>static final operator(0) Dot(b, b)\<close>
  is a final binary operator with two parameters and the precedence 0, which lies in
  the range from 0 to 255 that the message of the range check names. The walker drops
  the 0 (\<open>if (precedence)\<close>), and the pass reports that the operator must have a
  precedence. With the precedence 16 nothing is reported.
\<close>

theorem operator_precedence_zero:
  "precedence (finalOperator (Some 0)) = None
   \<and> diagnostics (snd (visitMethod id (finalOperator (Some 0)) emptyAnalyzer))
       = [\<lparr>drange = lineRange 5, dmessage = OperatorNeedsPrecedence\<rparr>]
   \<and> diagnostics (snd (visitMethod id (finalOperator (Some 16)) emptyAnalyzer)) = []"
  by (simp add: finalOperator_def functionDeclSymbol_def HasKind_def methodType_def newMethod_def
      falsy_def visitMethod_def operatorChecks_def emptyAnalyzer_def required_b_def push_def pop_def
      Let_def)

section \<open>Properties of the symbol graph\<close>

subsection \<open>The searches return the same with more fuel\<close>

text \<open>
  A search that returns within some fuel returns the same with any larger fuel: the
  fuel only cuts off searches that have not returned yet, and the result of a search is
  the one it has with enough fuel.
\<close>

lemma findSymbol_loop_mono:
  "findSymbol_loop h n cs i = Some r \<Longrightarrow> n \<le> m \<Longrightarrow> findSymbol_loop h m cs i = Some r"
proof (induction h n cs i arbitrary: m r rule: findSymbol_loop.induct)
  case (1 h n i)
  then show ?case by simp
next
  case (2 h n child rest i)
  note prems = "2.prems"
  show ?case
  proof (cases "toLowerCase (getName (h child)) = i")
    case True
    with prems show ?thesis by simp
  next
    case False
    note neq = this
    show ?thesis
    proof (cases "instanceOf (h child) = EnumSymbol")
      case False
      have "findSymbol_loop h n rest i = Some r"
        using prems(1) neq False by simp
      then have "findSymbol_loop h m rest i = Some r"
        by (rule "2.IH"(3) [OF neq False _ prems(2)])
      then show ?thesis
        using neq False by simp
    next
      case True
      note en = this
      show ?thesis
      proof (cases n)
        case 0
        with prems(1) neq en show ?thesis by simp
      next
        case (Suc n')
        then obtain m' where m': "m = Suc m'" "n' \<le> m'"
          using prems(2) by (cases m) auto
        show ?thesis
        proof (cases "findSymbol_loop h n' (children (h child)) i")
          case None
          with prems(1) neq en Suc show ?thesis by simp
        next
          case (Some inner)
          note innerN = this
          have inner': "findSymbol_loop h m' (children (h child)) i = Some inner"
            by (rule "2.IH"(1) [OF neq en Suc innerN m'(2)])
          show ?thesis
          proof (cases inner)
            case None
            have "findSymbol_loop h n rest i = Some r"
              using prems(1) neq en Suc innerN None by simp
            then have "findSymbol_loop h m rest i = Some r"
              using "2.IH"(2) [OF neq en Suc _ _ _ prems(2)] innerN None by blast
            then show ?thesis
              using neq en m'(1) inner' None by simp
          next
            case (Some s)
            then show ?thesis
              using prems(1) neq en Suc innerN m'(1) inner' by auto
          qed
        qed
      qed
    qed
  qed
qed

lemma findSuperSymbol_mono:
  "findSuperSymbol h n this i = Some r \<Longrightarrow> n \<le> m \<Longrightarrow> findSuperSymbol h m this i = Some r"
proof (induction n arbitrary: m this r)
  case 0
  then show ?case by simp
next
  case (Suc n)
  then obtain m' where m': "m = Suc m'" "n \<le> m'"
    by (cases m) auto
  have fs: "findSymbol h m' this i = Some x" if "findSymbol h n this i = Some x" for x
    using findSymbol_loop_mono [OF _ m'(2)] that by (simp add: findSymbol_def)
  have ih: "findSuperSymbol h m' a i = Some x" if "findSuperSymbol h n a i = Some x" for a x
    using Suc.IH [OF that m'(2)] .
  show ?case
  proof (cases "i = toLowerCase (getName (h this))")
    case True
    with Suc.prems(1) m'(1) show ?thesis by simp
  next
    case False
    note neq = this
    show ?thesis
    proof (cases "findSymbol h n this i")
      case None
      with Suc.prems(1) neq show ?thesis by simp
    next
      case (Some own)
      note own = this fs [OF this]
      show ?thesis
      proof (cases own)
        case (Some s)
        with Suc.prems(1) neq own m'(1) show ?thesis by auto
      next
        case None
        note ownNone = this
        define viaSuper where "viaSuper k =
          (case super (h this) of
             Some parent \<Rightarrow>
               if instanceOf (h this) \<noteq> MethodSymbol then findSuperSymbol h k parent i
               else Some None
           | None \<Rightarrow> Some None)" for k
        have vs: "viaSuper m' = Some x" if "viaSuper n = Some x" for x
          using that ih by (auto simp: viaSuper_def split: option.splits if_splits)
        define viaOuter where "viaOuter k =
          (case outer (h this) of
             Some owner \<Rightarrow>
               if (instanceOf (h this) = MethodSymbol \<or> instanceOf (h this) = StateSymbol)
                  \<and> instanceofStruct (instanceOf (h owner))
               then findSuperSymbol h k owner i
               else Some None
           | None \<Rightarrow> Some None)" for k
        have vo: "viaOuter m' = Some x" if "viaOuter n = Some x" for x
          using that ih by (auto simp: viaOuter_def split: option.splits if_splits)
        have unfold: "findSuperSymbol h (Suc k) this i =
            (case viaSuper k of None \<Rightarrow> None | Some (Some symbol) \<Rightarrow> Some (Some symbol)
             | Some None \<Rightarrow> viaOuter k)"
          if "findSymbol h k this i = Some None" for k
          using that neq by (simp add: viaSuper_def viaOuter_def split: option.splits)
        have a: "(case viaSuper n of None \<Rightarrow> None | Some (Some symbol) \<Rightarrow> Some (Some symbol)
             | Some None \<Rightarrow> viaOuter n) = Some r"
          using Suc.prems(1) unfold [of n] own(1) ownNone by simp
        have "(case viaSuper m' of None \<Rightarrow> None | Some (Some symbol) \<Rightarrow> Some (Some symbol)
             | Some None \<Rightarrow> viaOuter m') = Some r"
        proof (cases "viaSuper n")
          case None
          with a show ?thesis by simp
        next
          case (Some x)
          with a vs [OF Some] vo show ?thesis by (cases x) auto
        qed
        then show ?thesis
          using unfold [of m'] own(2) ownNone m'(1) by simp
      qed
    qed
  qed
qed



subsection \<open>The searches return on a ranked heap\<close>

text \<open>
  On a ranked heap the search of the children returns with fuel above the ranks of the
  children, and the search from a struct returns with fuel above its rank and the bound.
\<close>

lemma findSymbol_loop_returns:
  "\<forall>a. instanceOf (h a) = EnumSymbol \<longrightarrow> (\<forall>c \<in> set (children (h a)). down c < down a) \<Longrightarrow>
   \<forall>c \<in> set cs. down c < n \<Longrightarrow> findSymbol_loop h n cs i \<noteq> None"
proof (induction h n cs i rule: findSymbol_loop.induct)
  case (1 h n i)
  then show ?case by simp
next
  case (2 h n child rest i)
  note rk = "2.prems"(1) and bound = "2.prems"(2)
  show ?case
  proof (cases "toLowerCase (getName (h child)) = i")
    case True
    then show ?thesis by simp
  next
    case False
    note neq = this
    have restlt: "\<forall>c \<in> set rest. down c < n"
      using bound by simp
    show ?thesis
    proof (cases "instanceOf (h child) = EnumSymbol")
      case False
      have "findSymbol_loop h n rest i \<noteq> None"
        by (rule "2.IH"(3) [OF neq False rk restlt])
      then show ?thesis
        using neq False by simp
    next
      case True
      note en = this
      have lt: "down child < n"
        using bound by simp
      then obtain m where m: "n = Suc m"
        by (cases n) auto
      have inner: "\<forall>c \<in> set (children (h child)). down c < m"
        using rk en lt m by fastforce
      have r1: "findSymbol_loop h m (children (h child)) i \<noteq> None"
        by (rule "2.IH"(1) [OF neq en m rk inner])
      then obtain x where x: "findSymbol_loop h m (children (h child)) i = Some x"
        by auto
      show ?thesis
      proof (cases x)
        case None
        have "findSymbol_loop h n rest i \<noteq> None"
          using "2.IH"(2) [OF neq en m _ _ rk restlt] x None by blast
        then show ?thesis
          using neq en m x None by simp
      next
        case (Some s)
        then show ?thesis
          using neq en m x by simp
      qed
    qed
  qed
qed

lemma findSuperSymbol_step_returns:
  assumes own: "findSymbol h k a i \<noteq> None"
    and sup: "\<And>b. super (h a) = Some b \<Longrightarrow> instanceOf (h a) \<noteq> MethodSymbol \<Longrightarrow>
               findSuperSymbol h k b i \<noteq> None"
    and out: "\<And>b. outer (h a) = Some b \<Longrightarrow>
               instanceOf (h a) = MethodSymbol \<or> instanceOf (h a) = StateSymbol \<Longrightarrow>
               instanceofStruct (instanceOf (h b)) \<Longrightarrow> findSuperSymbol h k b i \<noteq> None"
  shows "findSuperSymbol h (Suc k) a i \<noteq> None"
proof (cases "i = toLowerCase (getName (h a))")
  case True
  then show ?thesis by simp
next
  case False
  note neq = this
  obtain x where x: "findSymbol h k a i = Some x"
    using own by auto
  show ?thesis
  proof (cases x)
    case (Some s)
    with neq x show ?thesis by simp
  next
    case None
    note xn = this
    define viaSuper where "viaSuper =
      (case super (h a) of
         Some parent \<Rightarrow>
           if instanceOf (h a) \<noteq> MethodSymbol then findSuperSymbol h k parent i else Some None
       | None \<Rightarrow> Some None)"
    define viaOuter where "viaOuter =
      (case outer (h a) of
         Some owner \<Rightarrow>
           if (instanceOf (h a) = MethodSymbol \<or> instanceOf (h a) = StateSymbol)
              \<and> instanceofStruct (instanceOf (h owner))
           then findSuperSymbol h k owner i
           else Some None
       | None \<Rightarrow> Some None)"
    have vs: "viaSuper \<noteq> None"
    proof (cases "super (h a)")
      case None
      then show ?thesis by (simp add: viaSuper_def)
    next
      case (Some b)
      show ?thesis
      proof (cases "instanceOf (h a) = MethodSymbol")
        case True
        with Some show ?thesis by (simp add: viaSuper_def)
      next
        case False
        have "findSuperSymbol h k b i \<noteq> None"
          by (rule sup [OF Some False])
        with Some False show ?thesis by (simp add: viaSuper_def)
      qed
    qed
    have vo: "viaOuter \<noteq> None"
    proof (cases "outer (h a)")
      case None
      then show ?thesis by (simp add: viaOuter_def)
    next
      case (Some b)
      show ?thesis
      proof (cases "(instanceOf (h a) = MethodSymbol \<or> instanceOf (h a) = StateSymbol)
              \<and> instanceofStruct (instanceOf (h b))")
        case False
        with Some show ?thesis by (auto simp: viaOuter_def)
      next
        case True
        have "findSuperSymbol h k b i \<noteq> None"
          using out [OF Some] True by blast
        with Some True show ?thesis by (auto simp: viaOuter_def)
      qed
    qed
    have unfold: "findSuperSymbol h (Suc k) a i =
        (case viaSuper of None \<Rightarrow> None | Some (Some symbol) \<Rightarrow> Some (Some symbol)
         | Some None \<Rightarrow> viaOuter)"
      using neq x xn by (simp add: viaSuper_def viaOuter_def split: option.splits)
    obtain y where y: "viaSuper = Some y"
      using vs by auto
    show ?thesis
      unfolding unfold using y vo by (cases y) simp_all
  qed
qed

lemma findSuperSymbol_returns:
  "ranked h up down D \<Longrightarrow> up a \<le> n \<Longrightarrow> findSuperSymbol h (Suc (n + D)) a i \<noteq> None"
proof (induction n arbitrary: a)
  case 0
  have rk: "\<forall>a. instanceOf (h a) = EnumSymbol \<longrightarrow> (\<forall>c \<in> set (children (h a)). down c < down a)"
    and dn: "\<And>c. down c < D"
    and sup: "\<And>b. super (h a) = Some b \<Longrightarrow> instanceOf (h a) \<noteq> MethodSymbol \<Longrightarrow> up b < up a"
    and out: "\<And>b. outer (h a) = Some b \<Longrightarrow>
        instanceOf (h a) = MethodSymbol \<or> instanceOf (h a) = StateSymbol \<Longrightarrow>
        instanceofStruct (instanceOf (h b)) \<Longrightarrow> up b < up a"
    using "0.prems"(1) unfolding ranked_def by blast+
  have own: "findSymbol h (0 + D) a i \<noteq> None"
    unfolding findSymbol_def by (rule findSymbol_loop_returns [OF rk]) (simp add: dn)
  show ?case
  proof (rule findSuperSymbol_step_returns [OF own])
    fix b
    assume "super (h a) = Some b" "instanceOf (h a) \<noteq> MethodSymbol"
    then have "up b < up a" by (rule sup)
    then show "findSuperSymbol h (0 + D) b i \<noteq> None"
      using "0.prems"(2) by simp
  next
    fix b
    assume "outer (h a) = Some b"
      "instanceOf (h a) = MethodSymbol \<or> instanceOf (h a) = StateSymbol"
      "instanceofStruct (instanceOf (h b))"
    then have "up b < up a" by (rule out)
    then show "findSuperSymbol h (0 + D) b i \<noteq> None"
      using "0.prems"(2) by simp
  qed
next
  case (Suc n)
  have rk: "\<forall>a. instanceOf (h a) = EnumSymbol \<longrightarrow> (\<forall>c \<in> set (children (h a)). down c < down a)"
    and dn: "\<And>c. down c < D"
    and sup: "\<And>b. super (h a) = Some b \<Longrightarrow> instanceOf (h a) \<noteq> MethodSymbol \<Longrightarrow> up b < up a"
    and out: "\<And>b. outer (h a) = Some b \<Longrightarrow>
        instanceOf (h a) = MethodSymbol \<or> instanceOf (h a) = StateSymbol \<Longrightarrow>
        instanceofStruct (instanceOf (h b)) \<Longrightarrow> up b < up a"
    using Suc.prems(1) unfolding ranked_def by blast+
  have own: "findSymbol h (Suc n + D) a i \<noteq> None"
    unfolding findSymbol_def
  proof (rule findSymbol_loop_returns [OF rk])
    show "\<forall>c \<in> set (children (h a)). down c < Suc n + D"
    proof
      fix c
      have "down c < D" by (rule dn)
      then show "down c < Suc n + D" by arith
    qed
  qed
  have up1: "findSuperSymbol h (Suc n + D) b i \<noteq> None" if "up b < up a" for b
  proof -
    have "up b \<le> n"
      using that Suc.prems(2) by simp
    then have "findSuperSymbol h (Suc (n + D)) b i \<noteq> None"
      by (rule Suc.IH [OF Suc.prems(1)])
    then show ?thesis by simp
  qed
  show ?case
  proof (rule findSuperSymbol_step_returns [OF own])
    fix b
    assume "super (h a) = Some b" "instanceOf (h a) \<noteq> MethodSymbol"
    then have "up b < up a" by (rule sup)
    then show "findSuperSymbol h (Suc n + D) b i \<noteq> None" by (rule up1)
  next
    fix b
    assume "outer (h a) = Some b"
      "instanceOf (h a) = MethodSymbol \<or> instanceOf (h a) = StateSymbol"
      "instanceofStruct (instanceOf (h b))"
    then have "up b < up a" by (rule out)
    then show "findSuperSymbol h (Suc n + D) b i \<noteq> None" by (rule up1)
  qed
qed

lemma ranked_classes: "ranked classes classRank (\<lambda>_. 0) 1"
  unfolding ranked_def
proof (intro allI)
  fix a :: addr
  consider "a = 1" | "a = 2" | "a = 3" | "a = 4" | "a = 5" | "a = 6"
    | "a \<noteq> 1 \<and> a \<noteq> 2 \<and> a \<noteq> 3 \<and> a \<noteq> 4 \<and> a \<noteq> 5 \<and> a \<noteq> 6"
    by blast
  then show "(0::nat) < 1 \<and>
         (\<forall>b. super (classes a) = Some b \<and> instanceOf (classes a) \<noteq> MethodSymbol \<longrightarrow>
              classRank b < classRank a) \<and>
         (\<forall>b. outer (classes a) = Some b \<and>
              (instanceOf (classes a) = MethodSymbol \<or> instanceOf (classes a) = StateSymbol) \<and>
              instanceofStruct (instanceOf (classes b)) \<longrightarrow>
              classRank b < classRank a) \<and>
         (instanceOf (classes a) = EnumSymbol \<longrightarrow>
          (\<forall>c\<in>set (children (classes a)). (0::nat) < 0))"
    by cases (simp_all add: classes_def named_def noSymbol_def classRank_def)
qed

subsection \<open>Resolution of a member reference\<close>




text \<open>
  The super link after the index of a struct and of a class.
\<close>

lemma UCStructSymbol_index_super:
  "super (fst (UCStructSymbol_index ti ctx this h) this) =
     (case extendsType (h this) of
        None \<Rightarrow> super (h this)
      | Some et \<Rightarrow> (case super (h this) of Some s \<Rightarrow> Some s | None \<Rightarrow> getReference (ti et ctx)))"
  by (auto simp: UCStructSymbol_index_def Let_def split: option.splits prod.splits)

lemma UCClassSymbol_index_super:
  "super (fst (UCClassSymbol_index ti ctx this h) this) =
     (case (case withinType (h this) of None \<Rightarrow> super (h this) | Some wt \<Rightarrow> getReference (ti wt ctx)) of
        Some s \<Rightarrow> Some s
      | None \<Rightarrow> (case extendsType (h this) of None \<Rightarrow> None | Some et \<Rightarrow> getReference (ti et ctx)))"
  unfolding UCClassSymbol_index_def Let_def
  by (auto split: option.splits prod.splits simp: UCStructSymbol_index_super dest!: arg_cong[where f=fst])

lemmas classes_eval = classes_def named_def noSymbol_def findSymbol_def getName_def toLowerCase_def
  typeNamed_def





subsection \<open>Resolution failures\<close>

text \<open>
  The parts of the claim on a failed resolution, and that \<open>index\<close> returns on a ranked
  heap.
\<close>

lemma resolution_failure_parts:
  "(findSuperSymbol h n ctx (toLowerCase (id_name (ref_id (symbolRef e)))) = Some None
      \<and> getEnumMember g (toLowerCase (id_name (ref_id (symbolRef e)))) = None
      \<and> (outerExpression e = OuterCall \<longrightarrow>
            TypeCastMap g (toLowerCase (id_name (ref_id (symbolRef e)))) = None
            \<and> ClassesTable g (toLowerCase (id_name (ref_id (symbolRef e)))) = None
            \<and> ObjectsTable g (toLowerCase (id_name (ref_id (symbolRef e)))) = None) \<longrightarrow>
      UCMemberExpression_index g h n ctx (e, nodes) = Some (e, nodes))
   \<and> UCMemberExpression_analyze h c e nodes = nodes @ UCMemberExpression_analyze h c e []
   \<and> length (UCMemberExpression_analyze h c e []) \<le> 1
   \<and> (UnrecognizedFieldNode (ref_id (symbolRef e)) c \<in> set (UCMemberExpression_analyze h c e [])
        \<longleftrightarrow> getMemberSymbol e = None
            \<and> (case c of None \<Rightarrow> True | Some a \<Rightarrow> instanceofStruct (instanceOf (h a))))
   \<and> (\<forall>node \<in> set (UCMemberExpression_analyze h c e []).
         node_getRange node = id_range (ref_id (symbolRef e)))
   \<and> diagnostics (visitObjectType cfg superVisit t a)
       = diagnostics (superVisit a)
         @ (if checkTypes cfg \<and> getReference t = None
            then [\<lparr>drange = type_range t, dmessage = TYPE_0_NOT_FOUND (type_name t)\<rparr>] else [])"
  by (auto simp: UCMemberExpression_index_def UCMemberExpression_analyze_def Let_def
      visitObjectType_def add_def split: option.splits)

lemma analyze_inaccessible:
  "c = Some x \<and> \<not> instanceofStruct (instanceOf (h x)) \<Longrightarrow>
   UCMemberExpression_analyze h c e []
     = [SemanticErrorNode (ref_id (symbolRef e)) (InaccessibleType x)]"
  by (simp add: UCMemberExpression_analyze_def)

lemma index_returns:
  assumes r: "ranked h up down D"
  shows "UCMemberExpression_index g h (Suc (up ctx + D)) ctx (e, nodes) \<noteq> None"
proof -
  have "findSuperSymbol h (Suc (up ctx + D)) ctx (toLowerCase (id_name (ref_id (symbolRef e))))
      \<noteq> None"
    by (rule findSuperSymbol_returns [OF r]) simp
  then obtain found where
    f: "findSuperSymbol h (Suc (up ctx + D)) ctx (toLowerCase (id_name (ref_id (symbolRef e))))
          = Some found"
    by auto
  show ?thesis
    unfolding UCMemberExpression_index_def Let_def
    using f by (simp del: findSuperSymbol.simps split: option.splits)
qed

text \<open>
  Claim C8, as amended. On a ranked heap (no cycle of super and outer links) \<open>index\<close>
  returns, with the fuel that the ranks give. When the resolution of a member reference
  fails at index time
  (the search through the context returns and finds nothing, the table of enum members has
  no entry, and for a reference directly under a call neither have the type casts, the
  classes and the objects), \<open>index\<close> returns, and leaves the expression and the nodes of
  the document as they are. \<open>analyze\<close> only appends to the nodes, at most one node, whose
  range is the range of the reference; it appends the unrecognized-field node exactly
  when the target of the reference is unset and the context is absent or a struct; for
  any other context it appends the inaccessible-type node instead (the last conjunct).
  The pass over a type reference adds the
  type-not-found diagnostic, at the range of the reference, exactly when the
  configuration asks for type checks and the reference is unresolved.
\<close>

theorem member_resolution_failure:
  "(ranked h up down D \<longrightarrow>
      UCMemberExpression_index g h (Suc (up ctx + D)) ctx (e, nodes) \<noteq> None)
   \<and> (findSuperSymbol h n ctx (toLowerCase (id_name (ref_id (symbolRef e)))) = Some None
      \<and> getEnumMember g (toLowerCase (id_name (ref_id (symbolRef e)))) = None
      \<and> (outerExpression e = OuterCall \<longrightarrow>
            TypeCastMap g (toLowerCase (id_name (ref_id (symbolRef e)))) = None
            \<and> ClassesTable g (toLowerCase (id_name (ref_id (symbolRef e)))) = None
            \<and> ObjectsTable g (toLowerCase (id_name (ref_id (symbolRef e)))) = None) \<longrightarrow>
      UCMemberExpression_index g h n ctx (e, nodes) = Some (e, nodes))
   \<and> UCMemberExpression_analyze h c e nodes = nodes @ UCMemberExpression_analyze h c e []
   \<and> length (UCMemberExpression_analyze h c e []) \<le> 1
   \<and> (UnrecognizedFieldNode (ref_id (symbolRef e)) c \<in> set (UCMemberExpression_analyze h c e [])
        \<longleftrightarrow> getMemberSymbol e = None
            \<and> (case c of None \<Rightarrow> True | Some a \<Rightarrow> instanceofStruct (instanceOf (h a))))
   \<and> (\<forall>node \<in> set (UCMemberExpression_analyze h c e []).
         node_getRange node = id_range (ref_id (symbolRef e)))
   \<and> diagnostics (visitObjectType cfg superVisit t a)
       = diagnostics (superVisit a)
         @ (if checkTypes cfg \<and> getReference t = None
            then [\<lparr>drange = type_range t, dmessage = TYPE_0_NOT_FOUND (type_name t)\<rparr>] else [])
   \<and> (c = Some x \<and> \<not> instanceofStruct (instanceOf (h x)) \<longrightarrow>
        UCMemberExpression_analyze h c e []
          = [SemanticErrorNode (ref_id (symbolRef e)) (InaccessibleType x)])"
  using index_returns [of h up down D g ctx e nodes]
    resolution_failure_parts [of h n ctx e g nodes c cfg superVisit t a]
    analyze_inaccessible [of c x h e]
  by blast

theorem member_resolution_failure_witness:
  "ranked classes classRank (\<lambda>_. 0) 1
   \<and> findSuperSymbol classes 3 2 ''z'' = Some None
   \<and> UCMemberExpression_index noTables classes 3 2 (memberNamed ''Z'', [])
       = Some (memberNamed ''Z'', [])
   \<and> getMemberSymbol (memberNamed ''Z'') = None
   \<and> UCMemberExpression_analyze classes (Some 2) (memberNamed ''Z'') []
       = [UnrecognizedFieldNode \<lparr>id_name = ''Z'', id_range = lineRange 8\<rparr> (Some 2)]
   \<and> node_getRange (UnrecognizedFieldNode \<lparr>id_name = ''Z'', id_range = lineRange 8\<rparr> (Some 2))
       = lineRange 8
   \<and> diagnostics (visitObjectType \<lparr>checkTypes = True\<rparr> id (typeNamed ''Z'') emptyAnalyzer)
       = [\<lparr>drange = lineRange 0, dmessage = TYPE_0_NOT_FOUND ''Z''\<rparr>]"
proof -
  have z: "findSuperSymbol classes 3 2 ''z'' = Some None"
    by (simp add: classes_eval numeral_2_eq_2 numeral_3_eq_3)
  have i: "UCMemberExpression_index noTables classes 3 2 (memberNamed ''Z'', [])
       = Some (memberNamed ''Z'', [])"
    using member_resolution_failure [where h = classes and n = 3 and ctx = 2
        and e = "memberNamed ''Z''" and g = noTables and nodes = "[]",
        THEN conjunct2, THEN conjunct1] z
    by (simp add: memberNamed_def noTables_def toLowerCase_def)
  show ?thesis
    using z i ranked_classes
    by (simp add: classes_eval memberNamed_def UCMemberExpression_analyze_def getMemberSymbol_def
        visitObjectType_def emptyAnalyzer_def add_def)
qed

text \<open>
  Claim C8 as stated fails: an unresolved member analyzed in the context of a symbol that
  is no struct (here the property at 3) gets the inaccessible-type node and no
  unrecognized-field node; and with type checks switched off, an unresolved type
  reference gets no diagnostic.
\<close>

theorem member_resolution_failure_counterexample:
  "getMemberSymbol (memberNamed ''Z'') = None
   \<and> \<not> instanceofStruct (instanceOf (classes 3))
   \<and> UCMemberExpression_analyze classes (Some 3) (memberNamed ''Z'') []
       = [SemanticErrorNode \<lparr>id_name = ''Z'', id_range = lineRange 8\<rparr> (InaccessibleType 3)]
   \<and> getReference (typeNamed ''Z'') = None
   \<and> diagnostics (visitObjectType \<lparr>checkTypes = False\<rparr> id (typeNamed ''Z'') emptyAnalyzer) = []"
  by (simp add: classes_eval memberNamed_def UCMemberExpression_analyze_def getMemberSymbol_def
      visitObjectType_def emptyAnalyzer_def)

subsection \<open>The order of the index pass\<close>

lemma addSymbol_fields [simp]:
  "instanceOf (addSymbol this symbol h a) = instanceOf (h a)"
  "ident (addSymbol this symbol h a) = ident (h a)"
  "extendsType (addSymbol this symbol h a) = extendsType (h a)"
  "super (addSymbol this symbol h a) = super (h a)"
  "scriptBlock (addSymbol this symbol h a) = scriptBlock (h a)"
  by (simp_all add: addSymbol_def Let_def)

lemma addSymbol_children [simp]:
  "children (addSymbol this symbol h this) = symbol # children (h this)"
  by (simp add: addSymbol_def Let_def)

lemma addSymbol_types:
  "types (addSymbol this symbol h this) =
     (if isTypeChild h symbol
      then Some (map_set (toLowerCase (getName (h symbol))) symbol
                   (case types (h this) of None \<Rightarrow> [] | Some m \<Rightarrow> m))
      else types (h this))"
  by (simp add: addSymbol_def Let_def isTypeChild_def getName_def)

lemma isTypeChild_addSymbol [simp]:
  "isTypeChild (addSymbol this symbol h) = isTypeChild h"
  by (rule ext) (simp add: isTypeChild_def)

lemma getName_addSymbol [simp]:
  "getName (addSymbol this symbol h a) = getName (h a)"
  by (simp add: getName_def)

lemma addSymbols_fields [simp]:
  "instanceOf (addSymbols this ds h a) = instanceOf (h a)"
  "extendsType (addSymbols this ds h a) = extendsType (h a)"
  "super (addSymbols this ds h a) = super (h a)"
  "scriptBlock (addSymbols this ds h a) = scriptBlock (h a)"
  "getName (addSymbols this ds h a) = getName (h a)"
  by (induction ds arbitrary: h; simp)+

lemma isTypeChild_addSymbols [simp]:
  "isTypeChild (addSymbols this ds h) = isTypeChild h"
  by (rule ext) (simp add: isTypeChild_def)

lemma addSymbols_children:
  "children (addSymbols this ds h this) = rev ds @ children (h this)"
  by (induction ds arbitrary: h) simp_all

lemma filter_key_none: "k \<notin> key ` set ts \<Longrightarrow> filter (\<lambda>a. key a = k) ts = []"
  by (induction ts) auto

lemma filter_key_all: "k \<notin> key ` set ts \<Longrightarrow> filter (\<lambda>a. key a \<noteq> k) ts = ts"
  by (induction ts) auto

lemma replace_key_none: "k \<notin> key ` set vs \<Longrightarrow> map (\<lambda>a. if key a = k then v else a) vs = vs"
  by (induction vs) auto

lemma typeEntries_distinct:
  "distinct (map key ts) \<Longrightarrow> typeEntries key ts = ts"
proof (induction ts)
  case Nil
  then show ?case by simp
next
  case (Cons t ts)
  have n: "key t \<notin> key ` set ts"
    using Cons.prems by simp
  have a: "filter (\<lambda>a. key a = key t) ts = []"
    by (rule filter_key_none [OF n])
  have b: "filter (\<lambda>a. key a \<noteq> key t) ts = ts"
    by (rule filter_key_all [OF n])
  show ?case
    using Cons a b by simp
qed

lemma map_set_old:
  "key v \<in> key ` set vs \<Longrightarrow> distinct (map key vs) \<Longrightarrow>
   map_set (key v) v (map (\<lambda>a. (key a, a)) vs)
     = map (\<lambda>a. (key a, a)) (map (\<lambda>a. if key a = key v then v else a) vs)"
proof (induction vs)
  case Nil
  then show ?case by simp
next
  case (Cons w vs)
  show ?case
  proof (cases "key w = key v")
    case True
    then have "key v \<notin> key ` set vs"
      using Cons.prems(2) by simp
    then have "map (\<lambda>a. if key a = key v then v else a) vs = vs"
      by (rule replace_key_none)
    then show ?thesis
      using True by simp
  next
    case False
    then have "key v \<in> key ` set vs"
      using Cons.prems(1) by auto
    then show ?thesis
      using Cons.IH Cons.prems(2) False by simp
  qed
qed

lemma map_set_fresh:
  "key v \<notin> key ` set vs \<Longrightarrow>
   map_set (key v) v (map (\<lambda>a. (key a, a)) vs) = map (\<lambda>a. (key a, a)) (vs @ [v])"
  by (induction vs) auto

lemma enter_types:
  "distinct (map key vs) \<Longrightarrow>
   foldl (\<lambda>m a. map_set (key a) a m) (map (\<lambda>a. (key a, a)) vs) ts
     = map (\<lambda>a. (key a, a))
         (map (\<lambda>v. last (v # filter (\<lambda>a. key a = key v) ts)) vs
          @ typeEntries key (filter (\<lambda>a. key a \<notin> key ` set vs) ts))"
proof (induction ts arbitrary: vs)
  case Nil
  then show ?case by simp
next
  case (Cons t ts)
  show ?case
  proof (cases "key t \<in> key ` set vs")
    case True
    let ?vs = "map (\<lambda>a. if key a = key t then t else a) vs"
    have keys: "map key ?vs = map key vs"
      by (induction vs) auto
    then have img: "key ` set ?vs = key ` set vs"
      by (metis list.set_map)
    have d: "distinct (map key ?vs)"
      using Cons.prems by (simp only: keys)
    have "foldl (\<lambda>m a. map_set (key a) a m) (map (\<lambda>a. (key a, a)) vs) (t # ts)
        = foldl (\<lambda>m a. map_set (key a) a m) (map (\<lambda>a. (key a, a)) ?vs) ts"
      using map_set_old [OF True Cons.prems] by simp
    also have "\<dots> = map (\<lambda>a. (key a, a))
         (map (\<lambda>v. last (v # filter (\<lambda>a. key a = key v) ts)) ?vs
          @ typeEntries key (filter (\<lambda>a. key a \<notin> key ` set ?vs) ts))"
      by (rule Cons.IH [OF d])
    also have "map (\<lambda>v. last (v # filter (\<lambda>a. key a = key v) ts)) ?vs
        = map (\<lambda>v. last (v # filter (\<lambda>a. key a = key v) (t # ts))) vs"
      by (induction vs) auto
    finally show ?thesis
      using True img by simp
  next
    case False
    have d: "distinct (map key (vs @ [t]))"
      using Cons.prems False by auto
    have f: "filter (\<lambda>a. key a \<notin> key ` set (vs @ [t])) ts
        = filter (\<lambda>a. key a \<noteq> key t) (filter (\<lambda>a. key a \<notin> key ` set vs) ts)"
      by (induction ts) auto
    have g: "filter (\<lambda>a. key a = key t) (filter (\<lambda>a. key a \<notin> key ` set vs) ts)
        = filter (\<lambda>a. key a = key t) ts"
      using False by (induction ts) auto
    have h: "map (\<lambda>v. last (v # filter (\<lambda>a. key a = key v) (t # ts))) vs
        = map (\<lambda>v. last (v # filter (\<lambda>a. key a = key v) ts)) vs"
      using False by (induction vs) auto
    have "foldl (\<lambda>m a. map_set (key a) a m) (map (\<lambda>a. (key a, a)) vs) (t # ts)
        = foldl (\<lambda>m a. map_set (key a) a m) (map (\<lambda>a. (key a, a)) (vs @ [t])) ts"
      using map_set_fresh [OF False] by simp
    also have "\<dots> = map (\<lambda>a. (key a, a))
         (map (\<lambda>v. last (v # filter (\<lambda>a. key a = key v) ts)) (vs @ [t])
          @ typeEntries key (filter (\<lambda>a. key a \<notin> key ` set (vs @ [t])) ts))"
      by (rule Cons.IH [OF d])
    finally show ?thesis
      using False f g h by simp
  qed
qed

lemma addSymbols_enter:
  "typesList (addSymbols this ds h) this
     = foldl (\<lambda>m a. map_set (toLowerCase (getName (h a))) a m) (typesList h this)
         (filter (isTypeChild h) ds)"
proof (induction ds arbitrary: h)
  case Nil
  then show ?case by simp
next
  case (Cons d ds)
  have t: "typesList (addSymbol this d h) this
      = (if isTypeChild h d then map_set (toLowerCase (getName (h d))) d (typesList h this)
         else typesList h this)"
    by (simp add: typesList_def addSymbol_types)
  show ?case
    using Cons.IH [of "addSymbol this d h"] t by simp
qed

lemma addSymbols_typeEntries:
  "types (h this) = None \<Longrightarrow>
   map snd (typesList (addSymbols this ds h) this)
     = typeEntries (\<lambda>a. toLowerCase (getName (h a))) (filter (isTypeChild h) ds)"
proof -
  assume "types (h this) = None"
  then have e: "typesList h this = []"
    by (simp add: typesList_def)
  show ?thesis
    using enter_types [of "\<lambda>a. toLowerCase (getName (h a))" "[]" "filter (isTypeChild h) ds"]
    by (simp add: addSymbols_enter e comp_def)
qed

lemma isTypeChild_upd:
  "instanceOf s = instanceOf (h this) \<Longrightarrow> isTypeChild (h(this := s)) = isTypeChild h"
  by (rule ext) (simp add: isTypeChild_def)

lemma UCStructSymbol_index_calls:
  "snd (UCStructSymbol_index ti ctx this h) =
     (case extendsType (h this) of None \<Rightarrow> [] | Some et \<Rightarrow> [TypeIndex et ctx])
     @ (if children (h this) \<noteq> [] then
          map (\<lambda>t. SymbolIndex t this) (map snd (typesList h this))
          @ map (\<lambda>child. SymbolIndex child this)
              (filter (\<lambda>child. \<not> isTypeChild h child) (children (h this)))
        else [])
     @ (case scriptBlock (h this) of None \<Rightarrow> [] | Some b \<Rightarrow> [BlockIndex b this])"
proof (cases "extendsType (h this)")
  case None
  then show ?thesis
    by (simp add: UCStructSymbol_index_def Let_def typesList_def split: option.splits)
next
  case (Some et)
  then show ?thesis
    by (simp add: UCStructSymbol_index_def Let_def typesList_def isTypeChild_upd
        split: option.splits)
qed

lemma UCClassSymbol_index_calls:
  "snd (UCClassSymbol_index ti ctx this h) =
     (case withinType (h this) of None \<Rightarrow> [] | Some wt \<Rightarrow> [TypeIndex wt ctx])
     @ (case dependsOnTypes (h this) of None \<Rightarrow> [] | Some ts \<Rightarrow> map (\<lambda>t. TypeIndex t ctx) ts)
     @ (case implementsTypes (h this) of None \<Rightarrow> [] | Some ts \<Rightarrow> map (\<lambda>t. TypeIndex t ctx) ts)
     @ snd (UCStructSymbol_index ti ctx this h)"
  by (simp add: UCClassSymbol_index_def Let_def UCStructSymbol_index_calls typesList_def
      isTypeChild_upd split_beta split: option.splits)

lemmas structBody_eval = structBody_def named_def noSymbol_def getName_def toLowerCase_def typeNamed_def
  isTypeChild_def

text \<open>
  Claim C6, as amended. Let the body of a struct be declared, with \<open>addSymbol\<close>, in the
  order \<open>ds\<close>, each symbol once. Its index
  \<^enum> first calls the index of the extends clause, if there is one, and sets the super
    to the resolved reference only when no super is set;
  \<^enum> then calls the index of each value of the map \<open>types\<close>: for each lower-case name
    of a nested type (struct or enum), in the order in which the names were first
    declared, the type declared last under that name. When the nested types have
    distinct lower-case names, these are the nested types in the order of their
    declaration;
  \<^enum> then calls the index of each remaining child in the order of the list of
    children, which is the reverse of the order of declaration: the child declared last
    comes first;
  \<^enum> and last calls the index of the script block, if there is one.
  The index of a class calls the index of the within clause, of the classes depended on
  and of the interfaces before that; its super is then the reference of the within
  clause, if that is resolved, and otherwise as for a struct (the last conjunct).
\<close>

theorem UCStructSymbol_index_order:
  assumes "children (h0 this) = []" and "types (h0 this) = None" and "distinct ds"
  shows "snd (UCStructSymbol_index ti ctx this (addSymbols this ds h0)) =
           (case extendsType (h0 this) of None \<Rightarrow> [] | Some et \<Rightarrow> [TypeIndex et ctx])
           @ map (\<lambda>t. SymbolIndex t this)
               (typeEntries (\<lambda>a. toLowerCase (getName (h0 a))) (filter (isTypeChild h0) ds))
           @ map (\<lambda>child. SymbolIndex child this) (rev (filter (\<lambda>child. \<not> isTypeChild h0 child) ds))
           @ (case scriptBlock (h0 this) of None \<Rightarrow> [] | Some b \<Rightarrow> [BlockIndex b this])
       \<and> (distinct (map (\<lambda>a. toLowerCase (getName (h0 a))) (filter (isTypeChild h0) ds)) \<longrightarrow>
            snd (UCStructSymbol_index ti ctx this (addSymbols this ds h0)) =
              (case extendsType (h0 this) of None \<Rightarrow> [] | Some et \<Rightarrow> [TypeIndex et ctx])
              @ map (\<lambda>t. SymbolIndex t this) (filter (isTypeChild h0) ds)
              @ map (\<lambda>child. SymbolIndex child this)
                  (rev (filter (\<lambda>child. \<not> isTypeChild h0 child) ds))
              @ (case scriptBlock (h0 this) of None \<Rightarrow> [] | Some b \<Rightarrow> [BlockIndex b this]))
       \<and> super (fst (UCStructSymbol_index ti ctx this (addSymbols this ds h0)) this) =
           (case extendsType (h0 this) of
              None \<Rightarrow> super (h0 this)
            | Some et \<Rightarrow>
                (case super (h0 this) of Some s \<Rightarrow> Some s | None \<Rightarrow> getReference (ti et ctx)))
       \<and> snd (UCClassSymbol_index ti ctx this (addSymbols this ds h0)) =
           (case withinType (addSymbols this ds h0 this) of
              None \<Rightarrow> [] | Some wt \<Rightarrow> [TypeIndex wt ctx])
           @ (case dependsOnTypes (addSymbols this ds h0 this) of
                None \<Rightarrow> [] | Some ts \<Rightarrow> map (\<lambda>t. TypeIndex t ctx) ts)
           @ (case implementsTypes (addSymbols this ds h0 this) of
                None \<Rightarrow> [] | Some ts \<Rightarrow> map (\<lambda>t. TypeIndex t ctx) ts)
           @ snd (UCStructSymbol_index ti ctx this (addSymbols this ds h0))
       \<and> super (fst (UCClassSymbol_index ti ctx this (addSymbols this ds h0)) this) =
           (case (case withinType (addSymbols this ds h0 this) of
                    None \<Rightarrow> super (h0 this)
                  | Some wt \<Rightarrow> getReference (ti wt ctx)) of
              Some s \<Rightarrow> Some s
            | None \<Rightarrow>
                (case extendsType (h0 this) of None \<Rightarrow> None | Some et \<Rightarrow> getReference (ti et ctx)))"
proof -
  have ch: "children (addSymbols this ds h0 this) = rev ds"
    using assms(1) by (simp add: addSymbols_children)
  have tl: "map snd (typesList (addSymbols this ds h0) this)
      = typeEntries (\<lambda>a. toLowerCase (getName (h0 a))) (filter (isTypeChild h0) ds)"
    using assms(2) by (rule addSymbols_typeEntries [of h0 this ds])
  have empty: "filter (isTypeChild h0) ds = [] \<and> filter (\<lambda>child. \<not> isTypeChild h0 child) ds = []"
    if "ds = []"
    using that by simp
  have calls: "snd (UCStructSymbol_index ti ctx this (addSymbols this ds h0)) =
           (case extendsType (h0 this) of None \<Rightarrow> [] | Some et \<Rightarrow> [TypeIndex et ctx])
           @ map (\<lambda>t. SymbolIndex t this)
               (typeEntries (\<lambda>a. toLowerCase (getName (h0 a))) (filter (isTypeChild h0) ds))
           @ map (\<lambda>child. SymbolIndex child this) (rev (filter (\<lambda>child. \<not> isTypeChild h0 child) ds))
           @ (case scriptBlock (h0 this) of None \<Rightarrow> [] | Some b \<Rightarrow> [BlockIndex b this])"
    using ch tl empty
    by (simp add: UCStructSymbol_index_calls rev_filter)
  have same: "typeEntries (\<lambda>a. toLowerCase (getName (h0 a))) (filter (isTypeChild h0) ds)
      = filter (isTypeChild h0) ds"
    if "distinct (map (\<lambda>a. toLowerCase (getName (h0 a))) (filter (isTypeChild h0) ds))"
    by (rule typeEntries_distinct [OF that])
  have sup: "super (fst (UCStructSymbol_index ti ctx this (addSymbols this ds h0)) this) =
           (case extendsType (h0 this) of
              None \<Rightarrow> super (h0 this)
            | Some et \<Rightarrow>
                (case super (h0 this) of Some s \<Rightarrow> Some s | None \<Rightarrow> getReference (ti et ctx)))"
    by (simp add: UCStructSymbol_index_super cong: option.case_cong)
  have csup: "super (fst (UCClassSymbol_index ti ctx this (addSymbols this ds h0)) this) =
           (case (case withinType (addSymbols this ds h0 this) of
                    None \<Rightarrow> super (h0 this)
                  | Some wt \<Rightarrow> getReference (ti wt ctx)) of
              Some s \<Rightarrow> Some s
            | None \<Rightarrow>
                (case extendsType (h0 this) of None \<Rightarrow> None | Some et \<Rightarrow> getReference (ti et ctx)))"
    by (simp add: UCClassSymbol_index_super cong: option.case_cong)
  show ?thesis
    using calls same sup csup
    by (simp add: UCClassSymbol_index_calls)
qed

theorem UCStructSymbol_index_order_witness:
  "children (structBody 10) = [] \<and> types (structBody 10) = None
   \<and> distinct [11, 12, 13, 14 :: addr] \<and> distinct [12, 13, 15 :: addr]
   \<and> distinct (map (\<lambda>a. toLowerCase (getName (structBody a)))
                  (filter (isTypeChild structBody) [11, 12, 13, 14]))
   \<and> snd (UCStructSymbol_index resolveByName 10 10 (addSymbols 10 [11, 12, 13, 14] structBody))
       = [TypeIndex (typeNamed ''A'') 10, SymbolIndex 12 10, SymbolIndex 14 10,
          SymbolIndex 13 10, SymbolIndex 11 10, BlockIndex 20 10]
   \<and> super (fst (UCStructSymbol_index resolveByName 10 10
                   (addSymbols 10 [11, 12, 13, 14] structBody)) 10) = Some 1
   \<and> snd (UCStructSymbol_index resolveByName 10 10 (addSymbols 10 [12, 13, 15] structBody))
       = [TypeIndex (typeNamed ''A'') 10, SymbolIndex 15 10, SymbolIndex 13 10, BlockIndex 20 10]"
proof -
  have a: "children (structBody 10) = []" and b: "types (structBody 10) = None"
    by (simp_all add: structBody_eval)
  have c: "distinct (map (\<lambda>a. toLowerCase (getName (structBody a)))
                      (filter (isTypeChild structBody) [11, 12, 13, 14]))"
    by (simp add: structBody_eval)
  have d: "distinct [11, 12, 13, 14 :: addr]" and d': "distinct [12, 13, 15 :: addr]"
    by simp_all
  have f: "extendsType (structBody 10) = Some (typeNamed ''A'')"
    "scriptBlock (structBody 10) = Some 20" "super (structBody 10) = None"
    "\<not> isTypeChild structBody 11" "isTypeChild structBody 12"
    "\<not> isTypeChild structBody 13" "isTypeChild structBody 14" "isTypeChild structBody 15"
    "getReference (resolveByName (typeNamed ''A'') 10) = Some 1"
    "toLowerCase (getName (structBody 15)) = toLowerCase (getName (structBody 12))"
    by (simp_all add: structBody_eval resolveByName_def)
  have g: "snd (UCStructSymbol_index resolveByName 10 10 (addSymbols 10 [12, 13, 15] structBody))
       = [TypeIndex (typeNamed ''A'') 10, SymbolIndex 15 10, SymbolIndex 13 10, BlockIndex 20 10]"
    using UCStructSymbol_index_order [of structBody 10 "[12, 13, 15]" resolveByName 10,
        OF a b d', THEN conjunct1]
    by (simp add: f)
  show ?thesis
    using UCStructSymbol_index_order [of structBody 10 "[11, 12, 13, 14]" resolveByName 10,
        OF a b d] a b c g
    by (simp add: f)
qed

text \<open>
  Claim C6 as stated fails: of the properties \<open>P\<close> (11) and \<open>Q\<close> (13), declared in this
  order, \<open>Q\<close> is indexed first.
\<close>

theorem UCStructSymbol_index_order_counterexample:
  "snd (UCStructSymbol_index resolveByName 10 10 (addSymbols 10 [11, 13] structBody))
     = [TypeIndex (typeNamed ''A'') 10, SymbolIndex 13 10, SymbolIndex 11 10, BlockIndex 20 10]"
  by (simp add: UCStructSymbol_index_calls typesList_def addSymbols_children addSymbol_types structBody_eval)

subsection \<open>The index of a document class\<close>

text \<open>
  Two type indexes that do the same on the states with a property that stays true when
  no owning document is unset, and that keep the property, give the same index of a
  struct, of a class and of a document class from such a state, and the property holds
  after it.
\<close>

lemma keepsDocuments_refl: "keepsDocuments h h"
  by (simp add: keepsDocuments_def)

lemma keepsDocuments_trans: "keepsDocuments h h1 \<Longrightarrow> keepsDocuments h1 h2 \<Longrightarrow> keepsDocuments h h2"
  by (simp add: keepsDocuments_def)

lemma keepsDocuments_upd:
  "document (h this) \<noteq> None \<longrightarrow> document v \<noteq> None \<Longrightarrow> keepsDocuments h (h(this := v))"
  by (simp add: keepsDocuments_def)

lemma upward_upd:
  "upward J \<Longrightarrow> J h \<Longrightarrow> document (h this) \<noteq> None \<longrightarrow> document v \<noteq> None \<Longrightarrow> J (h(this := v))"
  unfolding upward_def using keepsDocuments_upd by blast

lemma callIndex_agree:
  assumes "agreeOn J ti ti'" and "J (fst s)"
  shows "callIndex ti t ctx s = callIndex ti' t ctx s"
    and "callIndex ti t ctx s = Some (t', s') \<Longrightarrow> J (fst s')"
  using assms unfolding agreeOn_def callIndex_def by (metis fst_conv)+

lemma indexEach_agree:
  assumes "agreeOn J ti ti'"
  shows "J (fst s) \<Longrightarrow> indexEach ti ctx ts s = indexEach ti' ctx ts s
           \<and> (\<forall>ts' s'. indexEach ti ctx ts s = Some (ts', s') \<longrightarrow> J (fst s'))"
proof (induction ts arbitrary: s)
  case Nil
  then show ?case by auto
next
  case (Cons t ts)
  have same: "callIndex ti t ctx s = callIndex ti' t ctx s"
    by (rule callIndex_agree(1) [OF assms Cons.prems])
  show ?case
  proof (cases "callIndex ti t ctx s")
    case None
    then show ?thesis using same by simp
  next
    case (Some r)
    obtain t' s1 where r: "r = (t', s1)" by (cases r)
    have J1: "J (fst s1)"
      using callIndex_agree(2) [OF assms Cons.prems] Some r by simp
    have ih: "indexEach ti ctx ts s1 = indexEach ti' ctx ts s1
           \<and> (\<forall>ts' s'. indexEach ti ctx ts s1 = Some (ts', s') \<longrightarrow> J (fst s'))"
      by (rule Cons.IH [OF J1])
    show ?thesis
      using same Some r ih by (auto split: Option.bind_splits)
  qed
qed

lemma indexExtends_agree:
  assumes "upward J" and "agreeOn J ti ti'" and "J (fst s)"
  shows "indexExtends ti ctx this s = indexExtends ti' ctx this s"
    and "indexExtends ti ctx this s = Some s' \<Longrightarrow> J (fst s')"
proof -
  show "indexExtends ti ctx this s = indexExtends ti' ctx this s"
    using callIndex_agree(1) [OF assms(2,3)] by (simp add: indexExtends_def split: option.splits)
  show "J (fst s')" if r: "indexExtends ti ctx this s = Some s'"
  proof (cases "extendsType (fst s this)")
    case None
    then show ?thesis using r assms(3) by (simp add: indexExtends_def)
  next
    case (Some et)
    obtain et' h calls where c: "callIndex ti et ctx s = Some (et', (h, calls))"
      using r Some by (auto simp: indexExtends_def split: Option.bind_splits)
    have "J h"
      using callIndex_agree(2) [OF assms(2,3) c] by simp
    then show ?thesis
      using r Some c upward_upd [OF assms(1)] by (auto simp: indexExtends_def Let_def)
  qed
qed

lemma UCStructSymbol_index_run_agree:
  assumes "upward J" and "agreeOn J ti ti'" and "J (fst s)"
  shows "UCStructSymbol_index_run ti ctx this s = UCStructSymbol_index_run ti' ctx this s"
    and "UCStructSymbol_index_run ti ctx this s = Some s' \<Longrightarrow> J (fst s')"
  using indexExtends_agree [OF assms]
  by (auto simp: UCStructSymbol_index_run_def split: Option.bind_splits)

lemma indexWithin_agree:
  assumes "upward J" and "agreeOn J ti ti'" and "J (fst s)"
  shows "indexWithin ti ctx this s = indexWithin ti' ctx this s"
    and "indexWithin ti ctx this s = Some s' \<Longrightarrow> J (fst s')"
proof -
  show "indexWithin ti ctx this s = indexWithin ti' ctx this s"
    using callIndex_agree(1) [OF assms(2,3)] by (simp add: indexWithin_def split: option.splits)
  show "J (fst s')" if r: "indexWithin ti ctx this s = Some s'"
  proof (cases "withinType (fst s this)")
    case None
    then show ?thesis using r assms(3) by (simp add: indexWithin_def)
  next
    case (Some wt)
    obtain wt' h calls where c: "callIndex ti wt ctx s = Some (wt', (h, calls))"
      using r Some by (auto simp: indexWithin_def split: Option.bind_splits)
    have "J h"
      using callIndex_agree(2) [OF assms(2,3) c] by simp
    then show ?thesis
      using r Some c upward_upd [OF assms(1)] by (auto simp: indexWithin_def)
  qed
qed

lemma indexDependsOn_agree:
  assumes "upward J" and "agreeOn J ti ti'" and "J (fst s)"
  shows "indexDependsOn ti ctx this s = indexDependsOn ti' ctx this s"
    and "indexDependsOn ti ctx this s = Some s' \<Longrightarrow> J (fst s')"
proof -
  show "indexDependsOn ti ctx this s = indexDependsOn ti' ctx this s"
    using indexEach_agree [OF assms(2,3)] by (simp add: indexDependsOn_def split: option.splits)
  show "J (fst s')" if r: "indexDependsOn ti ctx this s = Some s'"
  proof (cases "dependsOnTypes (fst s this)")
    case None
    then show ?thesis using r assms(3) by (simp add: indexDependsOn_def)
  next
    case (Some ts)
    obtain ts' h calls where c: "indexEach ti ctx ts s = Some (ts', (h, calls))"
      using r Some by (auto simp: indexDependsOn_def split: Option.bind_splits)
    have "J h"
      using indexEach_agree [OF assms(2,3), of ctx ts] c by simp
    then show ?thesis
      using r Some c upward_upd [OF assms(1)] by (auto simp: indexDependsOn_def)
  qed
qed

lemma indexImplements_agree:
  assumes "upward J" and "agreeOn J ti ti'" and "J (fst s)"
  shows "indexImplements ti ctx this s = indexImplements ti' ctx this s"
    and "indexImplements ti ctx this s = Some s' \<Longrightarrow> J (fst s')"
proof -
  show "indexImplements ti ctx this s = indexImplements ti' ctx this s"
    using indexEach_agree [OF assms(2,3)] by (simp add: indexImplements_def split: option.splits)
  show "J (fst s')" if r: "indexImplements ti ctx this s = Some s'"
  proof (cases "implementsTypes (fst s this)")
    case None
    then show ?thesis using r assms(3) by (simp add: indexImplements_def)
  next
    case (Some ts)
    obtain ts' h calls where c: "indexEach ti ctx ts s = Some (ts', (h, calls))"
      using r Some by (auto simp: indexImplements_def split: Option.bind_splits)
    have "J h"
      using indexEach_agree [OF assms(2,3), of ctx ts] c by simp
    then show ?thesis
      using r Some c upward_upd [OF assms(1)] by (auto simp: indexImplements_def)
  qed
qed

lemma UCClassSymbol_index_run_agree:
  assumes J: "upward J" and a: "agreeOn J ti ti'" and s: "J (fst s)"
  shows "UCClassSymbol_index_run ti ctx this s = UCClassSymbol_index_run ti' ctx this s"
    and "UCClassSymbol_index_run ti ctx this s = Some s' \<Longrightarrow> J (fst s')"
proof -
  have w: "indexWithin ti' ctx this s = indexWithin ti ctx this s"
    by (rule indexWithin_agree(1) [OF J a s, symmetric])
  have both: "UCClassSymbol_index_run ti ctx this s = UCClassSymbol_index_run ti' ctx this s
      \<and> (\<forall>s'. UCClassSymbol_index_run ti ctx this s = Some s' \<longrightarrow> J (fst s'))"
  proof (cases "indexWithin ti ctx this s")
    case None
    then show ?thesis by (simp add: UCClassSymbol_index_run_def w)
  next
    case s1: (Some s1)
    have J1: "J (fst s1)" by (rule indexWithin_agree(2) [OF J a s s1])
    have d: "indexDependsOn ti' ctx this s1 = indexDependsOn ti ctx this s1"
      by (rule indexDependsOn_agree(1) [OF J a J1, symmetric])
    show ?thesis
    proof (cases "indexDependsOn ti ctx this s1")
      case None
      then show ?thesis by (simp add: UCClassSymbol_index_run_def w s1 d)
    next
      case s2: (Some s2)
      have J2: "J (fst s2)" by (rule indexDependsOn_agree(2) [OF J a J1 s2])
      have i: "indexImplements ti' ctx this s2 = indexImplements ti ctx this s2"
        by (rule indexImplements_agree(1) [OF J a J2, symmetric])
      show ?thesis
      proof (cases "indexImplements ti ctx this s2")
        case None
        then show ?thesis by (simp add: UCClassSymbol_index_run_def w s1 d s2 i)
      next
        case s3: (Some s3)
        have J3: "J (fst s3)" by (rule indexImplements_agree(2) [OF J a J2 s3])
        have r: "UCStructSymbol_index_run ti' ctx this s3 = UCStructSymbol_index_run ti ctx this s3"
          by (rule UCStructSymbol_index_run_agree(1) [OF J a J3, symmetric])
        have p: "\<forall>s'. UCStructSymbol_index_run ti ctx this s3 = Some s' \<longrightarrow> J (fst s')"
          using UCStructSymbol_index_run_agree(2) [OF J a J3] by blast
        show ?thesis
          using p by (simp add: UCClassSymbol_index_run_def w s1 d s2 i s3 r)
      qed
    qed
  qed
  show "UCClassSymbol_index_run ti ctx this s = UCClassSymbol_index_run ti' ctx this s"
    using both by simp
  show "UCClassSymbol_index_run ti ctx this s = Some s' \<Longrightarrow> J (fst s')"
    using both by blast
qed

lemma UCDocumentClassSymbol_index_agree:
  assumes J: "upward J" and a: "agreeOn J ti ti'" and s: "J (fst s)"
  shows "UCDocumentClassSymbol_index ti doc ctx this s
           = UCDocumentClassSymbol_index ti' doc ctx this s"
    and "UCDocumentClassSymbol_index ti doc ctx this s = Some s' \<Longrightarrow> J (fst s')"
proof -
  let ?s1 = "((fst s)(this := (fst s this)\<lparr>document := Some doc\<rparr>), snd s)"
  have "J ((fst s)(this := (fst s this)\<lparr>document := Some doc\<rparr>))"
    by (rule upward_upd [OF J s]) simp
  then have J1: "J (fst ?s1)"
    by simp
  have e: "UCClassSymbol_index_run ti ctx this ?s1 = UCClassSymbol_index_run ti' ctx this ?s1"
    by (rule UCClassSymbol_index_run_agree(1) [OF J a J1])
  show "UCDocumentClassSymbol_index ti doc ctx this s
           = UCDocumentClassSymbol_index ti' doc ctx this s"
    by (simp only: UCDocumentClassSymbol_index_def e)
  show "J (fst s')" if r: "UCDocumentClassSymbol_index ti doc ctx this s = Some s'"
  proof (cases "document (fst s this) = None")
    case True
    then have "UCClassSymbol_index_run ti ctx this ?s1 = Some s'"
      using r by (simp add: UCDocumentClassSymbol_index_def)
    then show ?thesis
      by (rule UCClassSymbol_index_run_agree(2) [OF J a J1])
  next
    case False
    then show ?thesis
      using r s by (auto simp: UCDocumentClassSymbol_index_def)
  qed
qed

text \<open>
  With a type index that always returns, the index of a class returns; and so it does
  from a state with such a property when the type index keeps the owning documents and
  returns on the states with the property.
\<close>

lemma callIndex_total: "\<forall>t c s. ti t c s \<noteq> None \<Longrightarrow> callIndex ti t ctx s \<noteq> None"
  by (simp add: callIndex_def)

lemma indexEach_total: "\<forall>t c s. ti t c s \<noteq> None \<Longrightarrow> indexEach ti ctx ts s \<noteq> None"
proof (induction ts arbitrary: s)
  case Nil
  then show ?case by simp
next
  case (Cons t ts)
  obtain t' s1 where c: "callIndex ti t ctx s = Some (t', s1)"
    using callIndex_total [OF Cons.prems, of t ctx s] by auto
  obtain ts' s2 where e: "indexEach ti ctx ts s1 = Some (ts', s2)"
    using Cons.IH [OF Cons.prems, of s1] by auto
  show ?case
    by (simp add: c e)
qed

lemma indexExtends_total: "\<forall>t c s. ti t c s \<noteq> None \<Longrightarrow> indexExtends ti ctx this s \<noteq> None"
proof (cases "extendsType (fst s this)")
  case None
  then show ?thesis by (simp add: indexExtends_def)
next
  case (Some et)
  assume "\<forall>t c s. ti t c s \<noteq> None"
  then obtain et' h calls where "callIndex ti et ctx s = Some (et', (h, calls))"
    using callIndex_total [of ti et ctx s] by auto
  then show ?thesis
    using Some by (simp add: indexExtends_def Let_def)
qed

lemma UCStructSymbol_index_run_total:
  "\<forall>t c s. ti t c s \<noteq> None \<Longrightarrow> UCStructSymbol_index_run ti ctx this s \<noteq> None"
  using indexExtends_total [of ti ctx this s]
  by (auto simp: UCStructSymbol_index_run_def)

lemma indexWithin_total: "\<forall>t c s. ti t c s \<noteq> None \<Longrightarrow> indexWithin ti ctx this s \<noteq> None"
proof (cases "withinType (fst s this)")
  case None
  then show ?thesis by (simp add: indexWithin_def)
next
  case (Some wt)
  assume "\<forall>t c s. ti t c s \<noteq> None"
  then obtain wt' h calls where "callIndex ti wt ctx s = Some (wt', (h, calls))"
    using callIndex_total [of ti wt ctx s] by auto
  then show ?thesis
    using Some by (simp add: indexWithin_def)
qed

lemma indexDependsOn_total: "\<forall>t c s. ti t c s \<noteq> None \<Longrightarrow> indexDependsOn ti ctx this s \<noteq> None"
proof (cases "dependsOnTypes (fst s this)")
  case None
  then show ?thesis by (simp add: indexDependsOn_def)
next
  case (Some ts)
  assume "\<forall>t c s. ti t c s \<noteq> None"
  then obtain ts' h calls where "indexEach ti ctx ts s = Some (ts', (h, calls))"
    using indexEach_total [of ti ctx ts s] by auto
  then show ?thesis
    using Some by (simp add: indexDependsOn_def)
qed

lemma indexImplements_total: "\<forall>t c s. ti t c s \<noteq> None \<Longrightarrow> indexImplements ti ctx this s \<noteq> None"
proof (cases "implementsTypes (fst s this)")
  case None
  then show ?thesis by (simp add: indexImplements_def)
next
  case (Some ts)
  assume "\<forall>t c s. ti t c s \<noteq> None"
  then obtain ts' h calls where "indexEach ti ctx ts s = Some (ts', (h, calls))"
    using indexEach_total [of ti ctx ts s] by auto
  then show ?thesis
    using Some by (simp add: indexImplements_def)
qed

lemma UCClassSymbol_index_run_total:
  assumes t: "\<forall>t c s. ti t c s \<noteq> None"
  shows "UCClassSymbol_index_run ti ctx this s \<noteq> None"
proof -
  obtain s1 where 1: "indexWithin ti ctx this s = Some s1"
    using indexWithin_total [OF t, of ctx this s] by auto
  obtain s2 where 2: "indexDependsOn ti ctx this s1 = Some s2"
    using indexDependsOn_total [OF t, of ctx this s1] by auto
  obtain s3 where 3: "indexImplements ti ctx this s2 = Some s3"
    using indexImplements_total [OF t, of ctx this s2] by auto
  show ?thesis
    using UCStructSymbol_index_run_total [OF t, of ctx this s3]
    by (simp add: UCClassSymbol_index_run_def 1 2 3)
qed

lemma agreeOn_keeping:
  assumes "upward J"
    and "\<forall>t c s t' s'. ti t c s = Some (t', s') \<longrightarrow> keepsDocuments (fst s) (fst s')"
  shows "agreeOn J ti ti"
  using assms unfolding agreeOn_def upward_def by blast

lemma UCClassSymbol_index_run_total_on:
  assumes J: "upward J"
    and k: "\<forall>t c s t' s'. ti t c s = Some (t', s') \<longrightarrow> keepsDocuments (fst s) (fst s')"
    and t: "\<forall>t c s. J (fst s) \<longrightarrow> ti t c s \<noteq> None"
    and s: "J (fst s)"
  shows "UCClassSymbol_index_run ti ctx this s \<noteq> None"
proof -
  define ti' where "ti' = (\<lambda>t c s. if J (fst s) then ti t c s else Some (t, s))"
  have a: "agreeOn J ti ti'"
    using agreeOn_keeping [OF J k] by (simp add: agreeOn_def ti'_def)
  have "UCClassSymbol_index_run ti ctx this s = UCClassSymbol_index_run ti' ctx this s"
    by (rule UCClassSymbol_index_run_agree(1) [OF J a s])
  moreover have "\<forall>t c s. ti' t c s \<noteq> None"
    using t by (simp add: ti'_def)
  then have "UCClassSymbol_index_run ti' ctx this s \<noteq> None"
    by (rule UCClassSymbol_index_run_total)
  ultimately show ?thesis by simp
qed

text \<open>
  A run of the index unsets no owning document, and each owning document that it sets
  makes the number of documents still to index smaller.
\<close>

lemma UCTypeSymbol_index_keeps:
  assumes "\<forall>p c x s s'. k p c x s = Some s' \<longrightarrow> keepsDocuments (fst s) (fst s')"
    and "UCTypeSymbol_index docs k t ctx s = Some (t', s')"
  shows "keepsDocuments (fst s) (fst s')"
proof (cases "map_of docs (toLowerCase (type_name t))")
  case None
  then show ?thesis
    using assms(2) by (simp add: UCTypeSymbol_index_def keepsDocuments_refl)
next
  case (Some e)
  obtain p c where e: "e = (p, c)" by (cases e)
  have "k p c c (fst s, snd s @ [SymbolIndex c c]) = Some s'"
    using assms(2) Some e by (auto simp: UCTypeSymbol_index_def split: Option.bind_splits)
  then have "keepsDocuments (fst (fst s, snd s @ [SymbolIndex c c])) (fst s')"
    using assms(1) by blast
  then show ?thesis by simp
qed

lemma indexDocumentClass_keeps:
  "indexDocumentClass n docs doc ctx this s = Some s' \<Longrightarrow> keepsDocuments (fst s) (fst s')"
proof (induction n arbitrary: doc ctx this s s')
  case 0
  then show ?case by simp
next
  case (Suc n)
  let ?ti = "UCTypeSymbol_index docs (indexDocumentClass n docs)"
  have k: "\<forall>t c s t' s'. ?ti t c s = Some (t', s') \<longrightarrow> keepsDocuments (fst s) (fst s')"
    using UCTypeSymbol_index_keeps [of "indexDocumentClass n docs" docs] Suc.IH by blast
  have up: "upward (keepsDocuments (fst s))"
    unfolding upward_def using keepsDocuments_trans by blast
  have r: "UCDocumentClassSymbol_index ?ti doc ctx this s = Some s'"
    using Suc.prems by simp
  show ?case
    by (rule UCDocumentClassSymbol_index_agree(2)
          [OF up agreeOn_keeping [OF up k] keepsDocuments_refl r])
qed

lemma UCTypeSymbol_index_knot_keeps:
  "\<forall>t c s t' s'. UCTypeSymbol_index docs (indexDocumentClass n docs) t c s = Some (t', s')
      \<longrightarrow> keepsDocuments (fst s) (fst s')"
  using UCTypeSymbol_index_keeps [of "indexDocumentClass n docs" docs] indexDocumentClass_keeps
  by blast

lemma pending_mono: "keepsDocuments h h' \<Longrightarrow> pending docs h' \<le> pending docs h"
  unfolding pending_def
proof (induction docs)
  case Nil
  then show ?case by simp
next
  case (Cons e docs)
  then show ?case by (auto simp: keepsDocuments_def)
qed

lemma pending_less:
  "e \<in> set docs \<Longrightarrow> document (h (snd (snd e))) = None \<Longrightarrow> keepsDocuments h h' \<Longrightarrow>
   document (h' (snd (snd e))) \<noteq> None \<Longrightarrow> pending docs h' < pending docs h"
proof (induction docs)
  case Nil
  then show ?case by simp
next
  case (Cons d docs)
  have m: "pending docs h' \<le> pending docs h"
    by (rule pending_mono [OF Cons.prems(3)])
  show ?case
  proof (cases "e = d")
    case True
    then show ?thesis
      using Cons.prems(2,4) m by (auto simp: pending_def)
  next
    case False
    then have "e \<in> set docs" using Cons.prems(1) by simp
    then have "pending docs h' < pending docs h"
      using Cons.prems(2,3,4) by (rule Cons.IH)
    then show ?thesis
      using Cons.prems(3) by (auto simp: pending_def keepsDocuments_def)
  qed
qed

lemma upward_pending: "upward (\<lambda>h. pending docs h \<le> n)"
  unfolding upward_def using pending_mono le_trans by blast

text \<open>
  The run returns: on a class of the table with fuel above the number of documents still
  to index, and on any class with fuel above the number of documents plus one.
\<close>

lemma UCTypeSymbol_index_total_on:
  assumes "\<forall>e \<in> set docs. \<forall>doc s'. fst s' = fst s \<longrightarrow>
             k doc (snd (snd e)) (snd (snd e)) s' \<noteq> None"
  shows "UCTypeSymbol_index docs k t ctx s \<noteq> None"
proof (cases "map_of docs (toLowerCase (type_name t))")
  case None
  then show ?thesis by (simp add: UCTypeSymbol_index_def)
next
  case (Some e)
  obtain p c where e: "e = (p, c)" by (cases e)
  have "(toLowerCase (type_name t), (p, c)) \<in> set docs"
    using Some e by (simp add: map_of_SomeD)
  then have "k p c c (fst s, snd s @ [SymbolIndex c c]) \<noteq> None"
    using assms by force
  then show ?thesis
    using Some e by (auto simp: UCTypeSymbol_index_def)
qed

lemma indexDocumentClass_entry_returns:
  "pending docs (fst s) \<le> n \<Longrightarrow> e \<in> set docs \<Longrightarrow>
   indexDocumentClass (Suc n) docs doc ctx (snd (snd e)) s \<noteq> None"
proof (induction n arbitrary: s e doc ctx)
  case 0
  have "document (fst s (snd (snd e))) \<noteq> None"
  proof
    assume u: "document (fst s (snd (snd e))) = None"
    have "0 < pending docs (fst s)"
      using "0.prems"(2) u unfolding pending_def by (induction docs) auto
    then show False using "0.prems"(1) by simp
  qed
  then show ?case
    by (simp add: UCDocumentClassSymbol_index_def)
next
  case (Suc n)
  let ?c = "snd (snd e)"
  let ?ti = "UCTypeSymbol_index docs (indexDocumentClass (Suc n) docs)"
  show ?case
  proof (cases "document (fst s ?c) = None")
    case False
    then show ?thesis
      by (simp add: UCDocumentClassSymbol_index_def)
  next
    case True
    let ?h1 = "(fst s)(?c := (fst s ?c)\<lparr>document := Some doc\<rparr>)"
    have "pending docs ?h1 < pending docs (fst s)"
      using pending_less [of e docs "fst s" ?h1] Suc.prems(2) True
      by (simp add: keepsDocuments_def)
    then have J1: "pending docs (fst (?h1, snd s)) \<le> n"
      using Suc.prems(1) by simp
    have t: "\<forall>t c s. pending docs (fst s) \<le> n \<longrightarrow> ?ti t c s \<noteq> None"
    proof (intro allI impI)
      fix t c and s0 :: indexState
      assume p: "pending docs (fst s0) \<le> n"
      have "\<forall>e \<in> set docs. \<forall>doc s'. fst s' = fst s0 \<longrightarrow>
              indexDocumentClass (Suc n) docs doc (snd (snd e)) (snd (snd e)) s' \<noteq> None"
        using Suc.IH p by simp
      then show "?ti t c s0 \<noteq> None"
        by (rule UCTypeSymbol_index_total_on)
    qed
    have "UCClassSymbol_index_run ?ti ctx ?c (?h1, snd s) \<noteq> None"
      by (rule UCClassSymbol_index_run_total_on
            [OF upward_pending UCTypeSymbol_index_knot_keeps t J1])
    then show ?thesis
      using True by (simp add: UCDocumentClassSymbol_index_def)
  qed
qed

lemma indexDocumentClass_returns:
  assumes "length docs < n"
  shows "indexDocumentClass (Suc n) docs doc ctx this s \<noteq> None"
proof -
  obtain m where n: "n = Suc m"
    using assms by (cases n) simp_all
  let ?ti = "UCTypeSymbol_index docs (indexDocumentClass (Suc m) docs)"
  let ?h1 = "(fst s)(this := (fst s this)\<lparr>document := Some doc\<rparr>)"
  have le: "pending docs h \<le> m" for h
  proof -
    have "pending docs h \<le> length docs"
      by (simp add: pending_def)
    then show ?thesis using assms n by simp
  qed
  have t: "\<forall>t c s. pending docs (fst s) \<le> m \<longrightarrow> ?ti t c s \<noteq> None"
  proof (intro allI impI)
    fix t c and s0 :: indexState
    assume p: "pending docs (fst s0) \<le> m"
    have "\<forall>e \<in> set docs. \<forall>doc s'. fst s' = fst s0 \<longrightarrow>
            indexDocumentClass (Suc m) docs doc (snd (snd e)) (snd (snd e)) s' \<noteq> None"
      using indexDocumentClass_entry_returns p by simp
    then show "?ti t c s0 \<noteq> None"
      by (rule UCTypeSymbol_index_total_on)
  qed
  have J1: "pending docs (fst (?h1, snd s)) \<le> m"
    by (rule le)
  have "UCClassSymbol_index_run ?ti ctx this (?h1, snd s) \<noteq> None"
    by (rule UCClassSymbol_index_run_total_on
          [OF upward_pending UCTypeSymbol_index_knot_keeps t J1])
  then show ?thesis
    by (simp add: n UCDocumentClassSymbol_index_def)
qed

text \<open>
  A call that comes back into the class that is being indexed returns at once; and after
  the run the owning document of the class is set.
\<close>

lemma upward_document: "upward (\<lambda>h. document (h this) \<noteq> None)"
  by (simp add: upward_def keepsDocuments_def)

lemma indexDocumentClass_reentrant:
  assumes "document (fst s this) = None"
  shows "indexDocumentClass (Suc (Suc n)) docs doc ctx this s =
           UCClassSymbol_index_run
             (UCTypeSymbol_index docs
                (\<lambda>path context c s'.
                   if c = this then Some s' else indexDocumentClass (Suc n) docs path context c s'))
             ctx this ((fst s)(this := (fst s this)\<lparr>document := Some doc\<rparr>), snd s)"
proof -
  let ?J = "\<lambda>h. document (h this) \<noteq> None"
  let ?ti = "UCTypeSymbol_index docs (indexDocumentClass (Suc n) docs)"
  let ?ti' = "UCTypeSymbol_index docs
                (\<lambda>path context c s'.
                   if c = this then Some s' else indexDocumentClass (Suc n) docs path context c s')"
  let ?s1 = "((fst s)(this := (fst s this)\<lparr>document := Some doc\<rparr>), snd s)"
  have same: "?ti t c s0 = ?ti' t c s0" if "?J (fst s0)" for t c s0
    using that
    by (auto simp: UCTypeSymbol_index_def UCDocumentClassSymbol_index_def split: option.splits)
  have keep: "?J (fst s0')" if "?J (fst s0)" and "?ti t c s0 = Some (t', s0')" for t c s0 t' s0'
    using UCTypeSymbol_index_knot_keeps [of docs "Suc n"] that
    unfolding keepsDocuments_def by blast
  have a: "agreeOn ?J ?ti ?ti'"
    unfolding agreeOn_def using same keep by blast
  have J1: "?J (fst ?s1)"
    by simp
  have "UCClassSymbol_index_run ?ti ctx this ?s1 = UCClassSymbol_index_run ?ti' ctx this ?s1"
    by (rule UCClassSymbol_index_run_agree(1) [OF upward_document a J1])
  then show ?thesis
    using assms by (simp add: UCDocumentClassSymbol_index_def)
qed

lemma indexDocumentClass_sets:
  assumes "indexDocumentClass n docs doc ctx this s = Some s'"
  shows "document (fst s' this) \<noteq> None"
proof (cases n)
  case 0
  then show ?thesis using assms by simp
next
  case (Suc m)
  let ?ti = "UCTypeSymbol_index docs (indexDocumentClass m docs)"
  let ?s1 = "((fst s)(this := (fst s this)\<lparr>document := Some doc\<rparr>), snd s)"
  show ?thesis
  proof (cases "document (fst s this) = None")
    case False
    then show ?thesis
      using assms Suc by (auto simp: UCDocumentClassSymbol_index_def)
  next
    case True
    then have r: "UCClassSymbol_index_run ?ti ctx this ?s1 = Some s'"
      using assms Suc by (simp add: UCDocumentClassSymbol_index_def)
    have J1: "document (fst ?s1 this) \<noteq> None"
      by simp
    show ?thesis
      by (rule UCClassSymbol_index_run_agree(2)
            [OF upward_document agreeOn_keeping [OF upward_document UCTypeSymbol_index_knot_keeps]
                J1 r])
  qed
qed

text \<open>
  With a type index that only resolves, the run does what the recording functions say.
\<close>

lemma indexEach_pure:
  "indexEach (pureIndex ti) ctx ts (h, calls)
     = Some (map (\<lambda>t. ti t ctx) ts, (h, calls @ map (\<lambda>t. TypeIndex t ctx) ts))"
  by (induction ts arbitrary: calls) (simp_all add: callIndex_def pureIndex_def)

lemma memberCalls_upd:
  "children v = children (h this) \<Longrightarrow> types v = types (h this) \<Longrightarrow>
   scriptBlock v = scriptBlock (h this) \<Longrightarrow> instanceOf v = instanceOf (h this) \<Longrightarrow>
   memberCalls (h(this := v)) this = memberCalls h this"
  by (simp add: memberCalls_def isTypeChild_upd)

lemma UCStructSymbol_index_run_pure:
  "UCStructSymbol_index_run (pureIndex ti) ctx this (h, calls)
     = Some (fst (UCStructSymbol_index ti ctx this h),
             calls @ snd (UCStructSymbol_index ti ctx this h))"
proof (cases "extendsType (h this)")
  case None
  then show ?thesis
    by (simp add: UCStructSymbol_index_run_def indexExtends_def UCStructSymbol_index_def
        memberCalls_def Let_def)
next
  case (Some et)
  then show ?thesis
    by (simp add: UCStructSymbol_index_run_def indexExtends_def UCStructSymbol_index_def
        callIndex_def pureIndex_def memberCalls_def Let_def isTypeChild_upd)
qed

lemma UCClassSymbol_index_run_pure:
  "UCClassSymbol_index_run (pureIndex ti) ctx this (h, calls)
     = Some (fst (UCClassSymbol_index ti ctx this h),
             calls @ snd (UCClassSymbol_index ti ctx this h))"
  by (simp add: UCClassSymbol_index_run_def UCClassSymbol_index_def indexWithin_def
      indexDependsOn_def indexImplements_def indexEach_pure UCStructSymbol_index_run_pure
      callIndex_def pureIndex_def Let_def split_beta split: option.splits)

text \<open>
  Claim C7. \<open>index\<close> of a document class symbol
  \<^enum> does nothing when the owning document of the symbol is set: it returns the state
    as it is, whatever the index of a type reference would do;
  \<^enum> otherwise sets the owning document first, and indexes the class in the state in
    which it is set;
  \<^enum> so a call that comes back into the class while it is being indexed does nothing:
    with the index of the type references run, the index of the class is what it is
    when every such call returns at once and leaves the state as it is;
  \<^enum> when it has returned, the owning document of the class is set and no owning
    document that was set is unset, so a second call, whatever its arguments and
    whatever its fuel, returns the state as it is;
  \<^enum> and it returns, with fuel above the number of documents plus one, also when the
    classes of the documents depend on each other in a cycle.
\<close>

theorem UCDocumentClassSymbol_index_once:
  "(document (fst s this) \<noteq> None \<longrightarrow> UCDocumentClassSymbol_index ti doc ctx this s = Some s)
   \<and> (document (fst s this) = None \<longrightarrow>
        UCDocumentClassSymbol_index ti doc ctx this s
          = UCClassSymbol_index_run ti ctx this
              ((fst s)(this := (fst s this)\<lparr>document := Some doc\<rparr>), snd s))
   \<and> (document (fst s this) = None \<longrightarrow>
        indexDocumentClass (Suc (Suc n)) docs doc ctx this s
          = UCClassSymbol_index_run
              (UCTypeSymbol_index docs
                 (\<lambda>path context c s'.
                    if c = this then Some s'
                    else indexDocumentClass (Suc n) docs path context c s'))
              ctx this ((fst s)(this := (fst s this)\<lparr>document := Some doc\<rparr>), snd s))
   \<and> (indexDocumentClass m docs doc ctx this s = Some s' \<longrightarrow>
        document (fst s' this) \<noteq> None
        \<and> (document (fst s a) \<noteq> None \<longrightarrow> document (fst s' a) \<noteq> None)
        \<and> UCDocumentClassSymbol_index ti' doc' ctx' this s' = Some s'
        \<and> indexDocumentClass (Suc k) docs doc' ctx' this s' = Some s')
   \<and> (length docs < n \<longrightarrow> indexDocumentClass (Suc n) docs doc ctx this s \<noteq> None)"
proof (intro conjI impI)
  show "UCDocumentClassSymbol_index ti doc ctx this s = Some s"
    if "document (fst s this) \<noteq> None"
    using that by (simp add: UCDocumentClassSymbol_index_def)
  show "UCDocumentClassSymbol_index ti doc ctx this s
          = UCClassSymbol_index_run ti ctx this
              ((fst s)(this := (fst s this)\<lparr>document := Some doc\<rparr>), snd s)"
    if "document (fst s this) = None"
    using that by (simp add: UCDocumentClassSymbol_index_def)
  show "indexDocumentClass (Suc (Suc n)) docs doc ctx this s
          = UCClassSymbol_index_run
              (UCTypeSymbol_index docs
                 (\<lambda>path context c s'.
                    if c = this then Some s'
                    else indexDocumentClass (Suc n) docs path context c s'))
              ctx this ((fst s)(this := (fst s this)\<lparr>document := Some doc\<rparr>), snd s)"
    if "document (fst s this) = None"
    using that by (rule indexDocumentClass_reentrant)
  assume r: "indexDocumentClass m docs doc ctx this s = Some s'"
  show d: "document (fst s' this) \<noteq> None"
    using r by (rule indexDocumentClass_sets)
  show "document (fst s' a) \<noteq> None" if "document (fst s a) \<noteq> None"
    using indexDocumentClass_keeps [OF r] that by (simp add: keepsDocuments_def)
  show "UCDocumentClassSymbol_index ti' doc' ctx' this s' = Some s'"
    using d by (simp add: UCDocumentClassSymbol_index_def)
  show "indexDocumentClass (Suc k) docs doc' ctx' this s' = Some s'"
    using d by (simp add: UCDocumentClassSymbol_index_def)
next
  show "indexDocumentClass (Suc n) docs doc ctx this s \<noteq> None" if "length docs < n"
    using that by (rule indexDocumentClass_returns)
qed

lemmas mutual_eval = mutual_def mutualDocuments_def named_def noSymbol_def typeNamed_def
  toLowerCase_def UCDocumentClassSymbol_index_def UCClassSymbol_index_run_def
  UCStructSymbol_index_run_def indexWithin_def indexDependsOn_def indexImplements_def
  indexExtends_def callIndex_def UCTypeSymbol_index_def memberCalls_def isTypeChild_def

theorem UCDocumentClassSymbol_index_once_witness:
  "document (mutual 40) = None \<and> document (mutual 41) = None
   \<and> length mutualDocuments < 3
   \<and> indexDocumentClass 4 mutualDocuments ''B.uc'' 41 41 (mutual, []) \<noteq> None
   \<and> indexDocumentClass 4 mutualDocuments ''A.uc'' 40 40 (mutual, []) = Some (mutualIndexed, mutualCalls)
   \<and> document (mutualIndexed 40) = Some ''A.uc'' \<and> document (mutualIndexed 41) = Some ''B.uc''
   \<and> indexDocumentClass 1 mutualDocuments ''A.uc'' 40 40 (mutualIndexed, mutualCalls)
       = Some (mutualIndexed, mutualCalls)
   \<and> UCDocumentClassSymbol_index (pureIndex resolveByName) ''A.uc'' 40 40 (mutualIndexed, mutualCalls)
       = Some (mutualIndexed, mutualCalls)
   \<and> UCDocumentClassSymbol_index (pureIndex resolveByName) ''B.uc'' 2 2 (unindexed, [])
       = Some (unindexed
                 (2 := (unindexed 2)\<lparr>document := Some ''B.uc'', super := Some 1,
                         extendsType := Some ((typeNamed ''A'')\<lparr>getReference := Some 1\<rparr>)\<rparr>),
               [TypeIndex (typeNamed ''A'') 2, SymbolIndex 5 2])"
proof -
  have u: "document (mutual 40) = None" "document (mutual 41) = None"
    "length mutualDocuments < 3"
    by (simp_all add: mutual_def mutualDocuments_def named_def noSymbol_def)
  have run: "indexDocumentClass 4 mutualDocuments ''A.uc'' 40 40 (mutual, [])
      = Some (mutualIndexed, mutualCalls)"
    by (simp add: mutual_eval mutualIndexed_def mutualCalls_def numeral_eq_Suc fun_upd_twist)
  have d: "document (mutualIndexed 40) = Some ''A.uc''" "document (mutualIndexed 41) = Some ''B.uc''"
    by (simp_all add: mutualIndexed_def)
  have again: "UCDocumentClassSymbol_index (pureIndex resolveByName) ''A.uc'' 40 40
                 (mutualIndexed, mutualCalls) = Some (mutualIndexed, mutualCalls)
      \<and> indexDocumentClass 1 mutualDocuments ''A.uc'' 40 40 (mutualIndexed, mutualCalls)
          = Some (mutualIndexed, mutualCalls)"
    using UCDocumentClassSymbol_index_once
      [where m = 4 and docs = mutualDocuments and doc = "''A.uc''" and ctx = 40 and this = 40
         and s = "(mutual, [])" and s' = "(mutualIndexed, mutualCalls)"
         and ti' = "pureIndex resolveByName" and doc' = "''A.uc''" and ctx' = 40 and k = 0,
       THEN conjunct2, THEN conjunct2, THEN conjunct2, THEN conjunct1]
      run
    by simp
  have returns: "indexDocumentClass 4 mutualDocuments ''B.uc'' 41 41 (mutual, []) \<noteq> None"
    using UCDocumentClassSymbol_index_once
      [where n = 3 and docs = mutualDocuments and doc = "''B.uc''" and ctx = 41 and this = 41
         and s = "(mutual, [])",
       THEN conjunct2, THEN conjunct2, THEN conjunct2, THEN conjunct2]
      u(3)
    by (simp add: numeral_eq_Suc)
  have first: "UCDocumentClassSymbol_index (pureIndex resolveByName) ''B.uc'' 2 2 (unindexed, [])
       = Some (unindexed
                 (2 := (unindexed 2)\<lparr>document := Some ''B.uc'', super := Some 1,
                         extendsType := Some ((typeNamed ''A'')\<lparr>getReference := Some 1\<rparr>)\<rparr>),
               [TypeIndex (typeNamed ''A'') 2, SymbolIndex 5 2])"
    by (simp add: UCDocumentClassSymbol_index_def UCClassSymbol_index_run_def
        UCStructSymbol_index_run_def indexWithin_def indexDependsOn_def indexImplements_def
        indexExtends_def callIndex_def memberCalls_def isTypeChild_def pureIndex_def
        resolveByName_def unindexed_def classes_eval)
  show ?thesis
    using u run d again returns first by simp
qed

section \<open>Properties of the tree builder\<close>

subsection \<open>One class per document\<close>



subsection \<open>The members of an enum\<close>

lemma visitEnumMember_step:
  assumes "wscopes w \<noteq> []" and "last (wscopes w) = e" and "e \<noteq> fresh w"
  shows "\<exists>w1. visitEnumMember m w = Some (fresh w, w1)
     \<and> fresh w1 = Suc (fresh w) \<and> wscopes w1 = wscopes w
     \<and> children (store w1 e) = fresh w # children (store w e)
     \<and> getName (store w1 (fresh w)) = id_name m
     \<and> (\<forall>c. c \<noteq> fresh w \<longrightarrow> getName (store w1 c) = getName (store w c)
             \<and> enum_value (store w1 c) = enum_value (store w c)
             \<and> outer (store w1 c) = outer (store w c)
             \<and> declRange (store w1 c) = declRange (store w c)
             \<and> instanceOf (store w1 c) = instanceOf (store w c))"
  using assms
  by (simp add: visitEnumMember_def newSymbol_def declareSymbol_def scope_addSymbol_def
      addSymbol_def Let_def getName_def)

lemma enumMembers_loop:
  assumes "wscopes w \<noteq> []" and "last (wscopes w) = e" and "e < fresh w"
    and "\<forall>a \<in> set (children (store w e)). a < fresh w"
  shows "\<exists>w'. enumMembers e count ms w = Some (count + length ms, w')
     \<and> memberView (store w') e
         = memberView (store w) e @ zip (map id_name ms) (map Some [count ..< count + length ms])
     \<and> wscopes w' = wscopes w \<and> fresh w \<le> fresh w'
     \<and> (\<forall>a \<in> set (children (store w' e)). a < fresh w')
     \<and> declRange (store w' e) = declRange (store w e)
     \<and> instanceOf (store w' e) = instanceOf (store w e)
     \<and> ((\<forall>a \<in> set (children (store w e)). outer (store w a) = Some e) \<longrightarrow>
          (\<forall>a \<in> set (children (store w' e)). outer (store w' a) = Some e))"
  using assms
proof (induction ms arbitrary: count w)
  case Nil
  then show ?case by simp
next
  case (Cons m ms)
  have ne: "e \<noteq> fresh w"
    using Cons.prems(3) by simp
  obtain w1 where w1: "visitEnumMember m w = Some (fresh w, w1)"
    "fresh w1 = Suc (fresh w)" "wscopes w1 = wscopes w"
    "children (store w1 e) = fresh w # children (store w e)"
    "getName (store w1 (fresh w)) = id_name m"
    "\<And>c. c \<noteq> fresh w \<Longrightarrow> getName (store w1 c) = getName (store w c)
             \<and> enum_value (store w1 c) = enum_value (store w c)
             \<and> outer (store w1 c) = outer (store w c)
             \<and> declRange (store w1 c) = declRange (store w c)
             \<and> instanceOf (store w1 c) = instanceOf (store w c)"
    using visitEnumMember_step [OF Cons.prems(1,2) ne, of m] by blast
  define w2 where "w2 = w1\<lparr>store := (store w1)(fresh w :=
                   (store w1 (fresh w))\<lparr>outer := Some e, enum_value := Some count\<rparr>)\<rparr>"
  have old: "c \<noteq> fresh w" if "c \<in> set (children (store w e))" for c
    using Cons.prems(4) that by auto
  have s2: "wscopes w2 \<noteq> []" "last (wscopes w2) = e" "e < fresh w2" "fresh w2 = Suc (fresh w)"
    using Cons.prems(1,2,3) w1(2,3) by (simp_all add: w2_def)
  have ch2: "children (store w2 e) = fresh w # children (store w e)"
    using w1(4) ne by (simp add: w2_def)
  have lt2: "\<forall>a \<in> set (children (store w2 e)). a < fresh w2"
    using Cons.prems(4) ch2 s2(4) by auto
  have view2: "memberView (store w2) e = memberView (store w) e @ [(id_name m, Some count)]"
    using ch2 w1(5) w1(6) old
    by (simp add: memberView_def w2_def getName_def)
  have e2: "declRange (store w2 e) = declRange (store w e)"
    "instanceOf (store w2 e) = instanceOf (store w e)"
    using w1(6) [of e] ne by (simp_all add: w2_def)
  have out2: "\<forall>a \<in> set (children (store w2 e)). outer (store w2 a) = Some e"
    if "\<forall>a \<in> set (children (store w e)). outer (store w a) = Some e"
    using that ch2 w1(6) old by (auto simp: w2_def)
  obtain w' where w': "enumMembers e (Suc count) ms w2 = Some (Suc count + length ms, w')"
    "memberView (store w') e
       = memberView (store w2) e @ zip (map id_name ms) (map Some [Suc count ..< Suc count + length ms])"
    "wscopes w' = wscopes w2" "fresh w2 \<le> fresh w'"
    "\<forall>a \<in> set (children (store w' e)). a < fresh w'"
    "declRange (store w' e) = declRange (store w2 e)"
    "instanceOf (store w' e) = instanceOf (store w2 e)"
    "(\<forall>a \<in> set (children (store w2 e)). outer (store w2 a) = Some e) \<longrightarrow>
      (\<forall>a \<in> set (children (store w' e)). outer (store w' a) = Some e)"
    using Cons.IH [OF s2(1,2,3) lt2, of "Suc count"] by blast
  have run: "enumMembers e count (m # ms) w = Some (count + length (m # ms), w')"
    using w1(1) w'(1) by (simp add: w2_def)
  have zip: "[(id_name m, Some count)] @ zip (map id_name ms) (map Some [Suc count ..< Suc count + length ms])
      = zip (map id_name (m # ms)) (map Some [count ..< count + length (m # ms)])"
  proof -
    have "[count ..< count + length (m # ms)] = count # [Suc count ..< Suc count + length ms]"
      by (subst upt_rec) simp
    then show ?thesis by simp
  qed
  have view: "memberView (store w') e
      = memberView (store w) e @ zip (map id_name (m # ms)) (map Some [count ..< count + length (m # ms)])"
    using w'(2) view2 zip by simp
  show ?case
    using run view w'(3,4,5,6,7,8) s2 w1(3) e2 out2
    by (intro exI [of _ w']) (auto simp: w2_def)
qed

lemma newSymbol_declare:
  assumes "wscopes w \<noteq> []" and "last (wscopes w) = e" and "e \<noteq> fresh w"
  shows "\<exists>w1. declareSymbol (fresh w) (snd (newSymbol i r FieldSymbol w)) = Some w1
     \<and> fst (newSymbol i r FieldSymbol w) = fresh w
     \<and> fresh w1 = Suc (fresh w) \<and> wscopes w1 = wscopes w
     \<and> children (store w1 e) = fresh w # children (store w e)
     \<and> getName (store w1 (fresh w)) = id_name i
     \<and> (\<forall>c. c \<noteq> fresh w \<longrightarrow> getName (store w1 c) = getName (store w c)
             \<and> enum_value (store w1 c) = enum_value (store w c)
             \<and> outer (store w1 c) = outer (store w c)
             \<and> instanceOf (store w1 c) = instanceOf (store w c))"
  using assms
  by (simp add: newSymbol_def declareSymbol_def scope_addSymbol_def
      addSymbol_def Let_def getName_def)

lemma newEnum_declare:
  assumes "wscopes w \<noteq> []" and "last (wscopes w) \<noteq> fresh w"
  shows "\<exists>w2. declareSymbol (fresh w) (snd (newSymbol i r EnumSymbol w)) = Some w2
     \<and> fst (newSymbol i r EnumSymbol w) = fresh w
     \<and> fresh w2 = Suc (fresh w) \<and> wscopes w2 = wscopes w
     \<and> children (store w2 (fresh w)) = []
     \<and> declRange (store w2 (fresh w)) = r
     \<and> instanceOf (store w2 (fresh w)) = EnumSymbol"
  using assms
  by (simp add: newSymbol_def declareSymbol_def scope_addSymbol_def
      addSymbol_def Let_def getName_def)

text \<open>
  Claim C2. \<open>visitEnumDecl\<close>, called with a scope to declare the enum in that is not at
  the address the enum gets, returns the enum symbol. Its children, read in the order of
  their declaration (the list of children holds them last first), are the declared
  members, each with its position in the declaration, from 0 on, as its value, followed
  by one more member of the name \<open>EnumCount\<close> whose value is the number of declared
  members. Every one of them has the enum as its outer, and the stack of scopes is as it
  was.
\<close>

theorem visitEnumDecl_ordinals:
  assumes "wscopes w \<noteq> []" and "last (wscopes w) \<noteq> fresh w"
  shows "case visitEnumDecl ctx w of
           None \<Rightarrow> False
         | Some (symbol, w') \<Rightarrow>
             symbol = fresh w
             \<and> instanceOf (store w' symbol) = EnumSymbol
             \<and> map (\<lambda>a. (getName (store w' a), enum_value (store w' a)))
                   (rev (children (store w' symbol)))
                 = zip (map id_name (enumMember ctx))
                       (map Some [0 ..< length (enumMember ctx)])
                   @ [(NAME_ENUMCOUNT, Some (length (enumMember ctx)))]
             \<and> (\<forall>a \<in> set (children (store w' symbol)). outer (store w' a) = Some symbol)
             \<and> wscopes w' = wscopes w"
proof -
  define e where "e = fresh w"
  define ms where "ms = enumMember ctx"
  obtain w2 where w2: "declareSymbol e (snd (newSymbol (enum_id ctx) (enum_range ctx) EnumSymbol w)) = Some w2"
    "fst (newSymbol (enum_id ctx) (enum_range ctx) EnumSymbol w) = e"
    "fresh w2 = Suc e" "wscopes w2 = wscopes w" "children (store w2 e) = []"
    "declRange (store w2 e) = enum_range ctx" "instanceOf (store w2 e) = EnumSymbol"
    using newEnum_declare [OF assms, of "enum_id ctx" "enum_range ctx"] unfolding e_def by blast
  define w3 where "w3 = wpush e (w2\<lparr>objectsTable := objectsTable w2 @ [e]\<rparr>)"
  have s3: "wscopes w3 \<noteq> []" "last (wscopes w3) = e" "e < fresh w3"
    "\<forall>a \<in> set (children (store w3 e)). a < fresh w3"
    "wscopes w3 = wscopes w @ [e]"
    using w2 by (simp_all add: w3_def wpush_def)
  obtain w4 where w4: "enumMembers e 0 ms w3 = Some (0 + length ms, w4)"
    "memberView (store w4) e
       = memberView (store w3) e @ zip (map id_name ms) (map Some [0 ..< 0 + length ms])"
    "wscopes w4 = wscopes w3" "fresh w3 \<le> fresh w4"
    "\<forall>a \<in> set (children (store w4 e)). a < fresh w4"
    "declRange (store w4 e) = declRange (store w3 e)"
    "instanceOf (store w4 e) = instanceOf (store w3 e)"
    "(\<forall>a \<in> set (children (store w3 e)). outer (store w3 a) = Some e) \<longrightarrow>
      (\<forall>a \<in> set (children (store w4 e)). outer (store w4 a) = Some e)"
    using enumMembers_loop [OF s3(1,2,3,4), of 0 ms] by blast
  have v3: "memberView (store w3) e = []"
    using w2(5) by (simp add: memberView_def w3_def wpush_def)
  have s4: "wscopes w4 \<noteq> []" "last (wscopes w4) = e" "e \<noteq> fresh w4"
    using w4(3,4) s3 by auto
  define i where "i = \<lparr>id_name = NAME_ENUMCOUNT, id_range = declRange (store w4 e)\<rparr>"
  obtain w6 where w6: "declareSymbol (fresh w4) (snd (newSymbol i (declRange (store w4 e)) FieldSymbol w4)) = Some w6"
    "fst (newSymbol i (declRange (store w4 e)) FieldSymbol w4) = fresh w4"
    "fresh w6 = Suc (fresh w4)" "wscopes w6 = wscopes w4"
    "children (store w6 e) = fresh w4 # children (store w4 e)"
    "getName (store w6 (fresh w4)) = id_name i"
    "\<And>c. c \<noteq> fresh w4 \<Longrightarrow> getName (store w6 c) = getName (store w4 c)
             \<and> enum_value (store w6 c) = enum_value (store w4 c)
             \<and> outer (store w6 c) = outer (store w4 c)
             \<and> instanceOf (store w6 c) = instanceOf (store w4 c)"
    using newSymbol_declare [OF s4, of i "declRange (store w4 e)"] by blast
  define w7 where "w7 = wpop (w6\<lparr>store := (store w6)(fresh w4 :=
      (store w6 (fresh w4))\<lparr>outer := Some e, enum_value := Some (length ms)\<rparr>)\<rparr>)"
  have run: "visitEnumDecl ctx w = Some (e, w7)"
    using w2(1,2) w4(1) w6(1,2)
    by (simp add: visitEnumDecl_def Let_def split_beta w3_def [symmetric] ms_def [symmetric]
        i_def [symmetric] w7_def e_def [symmetric])
  have old: "c \<noteq> fresh w4" if "c \<in> set (children (store w4 e))" for c
    using w4(5) that by auto
  have ch7: "children (store w7 e) = fresh w4 # children (store w4 e)"
    using w6(5) s4(3) by (simp add: w7_def wpop_def)
  have view7: "memberView (store w7) e = memberView (store w4) e @ [(NAME_ENUMCOUNT, Some (length ms))]"
    using ch7 w6(6) w6(7) old
    by (simp add: memberView_def w7_def wpop_def getName_def i_def)
  have out7: "\<forall>a \<in> set (children (store w7 e)). outer (store w7 a) = Some e"
    using ch7 w6(7) old w4(8) w2(5)
    by (auto simp: w7_def wpop_def w3_def wpush_def)
  have inst7: "instanceOf (store w7 e) = EnumSymbol"
    using w6(7) [of e] s4(3) w4(7) w2(7) by (simp add: w7_def wpop_def w3_def wpush_def)
  have sc7: "wscopes w7 = wscopes w"
    using w6(4) w4(3) s3(5) by (simp add: w7_def wpop_def)
  show ?thesis
    using run view7 w4(2) v3 out7 inst7 sc7
    by (simp add: memberView_def e_def ms_def)
qed

theorem visitEnumDecl_ordinals_witness:
  "wscopes packageWalker = [0] \<and> fresh packageWalker = 1
   \<and> map_option (\<lambda>(symbol, w').
        map (\<lambda>a. (getName (store w' a), enum_value (store w' a)))
          (rev (children (store w' symbol))))
        (visitEnumDecl enumE packageWalker)
      = Some [(''A'', Some 0), (''B'', Some 1), (''C'', Some 2), (''EnumCount'', Some 3)]"
proof -
  have a: "wscopes packageWalker \<noteq> []" and b: "last (wscopes packageWalker) \<noteq> fresh packageWalker"
    by (simp_all add: packageWalker_def)
  show ?thesis
    using visitEnumDecl_ordinals [OF a b, of enumE]
    by (auto simp: enumE_def NAME_ENUMCOUNT_def packageWalker_def upt_rec split: option.splits)
qed

section \<open>Properties of the symbol at a position\<close>

text \<open>
  Claim C10. \<open>getSymbolAtPos\<close> of a symbol never returns \<open>undefined\<close>: when the position
  intersects the range of the symbol and \<open>getContainedSymbolAtPos\<close> finds a symbol there,
  that symbol is returned, and in every other case the symbol itself; with the
  \<open>getContainedSymbolAtPos\<close> of \<open>UCSymbol\<close>, which finds nothing, always the symbol
  itself.
\<close>

theorem getSymbolAtPos_defined:
  "getSymbolAtPos iw gc h this p \<noteq> None
   \<and> (\<forall>c. iw p (declRange (h this)) \<and> gc this p = Some c \<longrightarrow>
         getSymbolAtPos iw gc h this p = Some c)
   \<and> (\<not> (iw p (declRange (h this)) \<and> gc this p \<noteq> None) \<longrightarrow>
         getSymbolAtPos iw gc h this p = Some this)
   \<and> getSymbolAtPos iw UCSymbol_getContainedSymbolAtPos h this p = Some this"
  by (auto simp: getSymbolAtPos_def UCSymbol_getContainedSymbolAtPos_def split: option.splits)

theorem getSymbolAtPos_defined_witness:
  "getSymbolAtPos (\<lambda>p r. True) (\<lambda>a p. Some 5) classes 2 \<lparr>line = 0, character = 0\<rparr> = Some 5
   \<and> getSymbolAtPos (\<lambda>p r. True) (\<lambda>a p. None) classes 2 \<lparr>line = 0, character = 0\<rparr> = Some 2
   \<and> getSymbolAtPos (\<lambda>p r. False) (\<lambda>a p. Some 5) classes 2 \<lparr>line = 0, character = 0\<rparr> = Some 2"
  using getSymbolAtPos_defined [of "\<lambda>p r. True" "\<lambda>a p. Some 5" classes 2 "\<lparr>line = 0, character = 0\<rparr>"]
    getSymbolAtPos_defined [of "\<lambda>p r. True" "\<lambda>a p. None" classes 2 "\<lparr>line = 0, character = 0\<rparr>"]
    getSymbolAtPos_defined [of "\<lambda>p r. False" "\<lambda>a p. Some 5" classes 2 "\<lparr>line = 0, character = 0\<rparr>"]
  by simp

end
